theory Spec2Isabelle
  imports Complex_Main "HOL-Library.Word" "HOL-Library.Log_Nat"
begin

unbundle bit_operations_syntax

chapter \<open>The model\<close>

type_synonym u8 = "8 word"
type_synonym u16 = "16 word"
type_synonym u32 = "32 word"
type_synonym s8 = "8 word"

text \<open>Error numbers as the sources return them (negated) from \<open>int\<close> functions.\<close>

datatype errno = EINVAL | ENOMEM | EOTHER int

section \<open>The type \<open>double\<close> of C\<close>

text \<open>
  \<open>cnetz_sync_frame\<close> computes with values of type \<open>double\<close>.  They are modelled as the
  binary64 format of IEEE 754 with the default rounding, every operation evaluated in
  that format and rounded by itself (a product and a sum are not contracted into one
  operation): a double is a finite number \<open>m * 2 ^ e\<close> with \<open>\<bar>m\<bar> < 2 ^ 53\<close> and
  \<open>- 1074 \<le> e \<le> 971\<close>, an infinity (\<open>Infty True\<close> is the negative one) or not a number.
  The sign of a zero is not modelled.

  \<open>binade x\<close> is the exponent \<open>e\<close> with \<open>2 ^ e \<le> \<bar>x\<bar> < 2 ^ (e + 1)\<close>, and \<open>ulp x\<close> the
  distance between neighbouring doubles there, \<open>2 ^ - 1074\<close> for the subnormal numbers.
  \<open>round_double\<close> is the rounding of an exact result: to the nearest multiple of \<open>ulp x\<close>,
  to the one with the even factor when two are equally near, and to an infinity when the
  result is beyond the largest double.
\<close>

datatype double = Num real | Infty bool | NaN

definition binade :: "real \<Rightarrow> int" where
  "binade x = (if 1 \<le> \<bar>x\<bar> then bitlen \<lfloor>\<bar>x\<bar>\<rfloor> - 1 else - bitlen (\<lceil>1 / \<bar>x\<bar>\<rceil> - 1))"

definition ulp :: "real \<Rightarrow> real" where
  "ulp x = 2 powi (max (binade x) (- 1022) - 52)"

definition nearest_even :: "real \<Rightarrow> int" where
  "nearest_even q =
     (let f = \<lfloor>q\<rfloor>; d = q - of_int f
      in if d < 1 / 2 then f else if d > 1 / 2 then f + 1 else if even f then f else f + 1)"

definition round_double :: "real \<Rightarrow> double" where
  "round_double x =
     (if x = 0 then Num 0
      else let y = of_int (nearest_even (x / ulp x)) * ulp x
           in if \<bar>y\<bar> \<ge> 2 powi 1024 then Infty (y < 0) else Num y)"

text \<open>
  The real numbers that are doubles, as the values that rounding leaves alone
  (\<open>is_double\<close>) and by their form (\<open>repr\<close>); the two are the same.
\<close>

definition is_double :: "real \<Rightarrow> bool" where
  "is_double x \<longleftrightarrow> round_double x = Num x"

definition repr :: "real \<Rightarrow> bool" where
  "repr x \<longleftrightarrow> (\<exists>m e. x = of_int m * 2 powi e \<and> \<bar>m\<bar> < 2 ^ 53 \<and> - 1074 \<le> e \<and> e \<le> 971)"

text \<open>
  \<open>fmod\<close> of the C library: the remainder of the division truncated towards zero, with
  the sign of the dividend.  It is exact.
\<close>

definition trunc :: "real \<Rightarrow> int" where
  "trunc x = (if 0 \<le> x then \<lfloor>x\<rfloor> else \<lceil>x\<rceil>)"

definition fmod :: "real \<Rightarrow> real \<Rightarrow> real" where
  "fmod x y = x - of_int (trunc (x / y)) * y"

text \<open>
  The operations that the code uses: negation, \<open>+\<close>, \<open>-\<close>, \<open>*\<close>, division by the constant
  \<open>2.0\<close> (\<open>d_half\<close>), \<open>fmod\<close>, \<open><\<close> (\<open>a > b\<close> is \<open>d_less b a\<close>) and the conversion of an \<open>int\<close>.
\<close>

fun d_neg :: "double \<Rightarrow> double" where
  "d_neg (Num a) = Num (- a)"
| "d_neg (Infty s) = Infty (\<not> s)"
| "d_neg NaN = NaN"

fun d_add :: "double \<Rightarrow> double \<Rightarrow> double" where
  "d_add (Num a) (Num b) = round_double (a + b)"
| "d_add (Num a) (Infty t) = Infty t"
| "d_add (Infty s) (Num b) = Infty s"
| "d_add (Infty s) (Infty t) = (if s = t then Infty s else NaN)"
| "d_add NaN _ = NaN"
| "d_add _ NaN = NaN"

definition d_sub :: "double \<Rightarrow> double \<Rightarrow> double" where
  "d_sub a b = d_add a (d_neg b)"

fun d_mul :: "double \<Rightarrow> double \<Rightarrow> double" where
  "d_mul (Num a) (Num b) = round_double (a * b)"
| "d_mul (Num a) (Infty t) = (if a = 0 then NaN else Infty (t \<noteq> (a < 0)))"
| "d_mul (Infty s) (Num b) = (if b = 0 then NaN else Infty (s \<noteq> (b < 0)))"
| "d_mul (Infty s) (Infty t) = Infty (s \<noteq> t)"
| "d_mul NaN _ = NaN"
| "d_mul _ NaN = NaN"

fun d_half :: "double \<Rightarrow> double" where
  "d_half (Num a) = round_double (a / 2)"
| "d_half (Infty s) = Infty s"
| "d_half NaN = NaN"

fun d_fmod :: "double \<Rightarrow> double \<Rightarrow> double" where
  "d_fmod (Num a) (Num b) = (if b = 0 then NaN else Num (fmod a b))"
| "d_fmod (Num a) (Infty t) = Num a"
| "d_fmod _ _ = NaN"

fun d_less :: "double \<Rightarrow> double \<Rightarrow> bool" where
  "d_less (Num a) (Num b) \<longleftrightarrow> a < b"
| "d_less (Num a) (Infty t) \<longleftrightarrow> \<not> t"
| "d_less (Infty s) (Num b) \<longleftrightarrow> s"
| "d_less (Infty s) (Infty t) \<longleftrightarrow> s \<and> \<not> t"
| "d_less _ _ \<longleftrightarrow> False"

definition d_of_int :: "int \<Rightarrow> double" where
  "d_of_int i = round_double (of_int i)"

section \<open>POCSAG framing (src/pocsag/frame.c)\<close>

definition CODEWORD_PREAMBLE :: u32 where "CODEWORD_PREAMBLE = 0xaaaaaaaa"
definition CODEWORD_SYNC :: u32 where "CODEWORD_SYNC = 0x7cd215d8"
definition CODEWORD_IDLE :: u32 where "CODEWORD_IDLE = 0x7a89c197"

text \<open>
  The \<open>for\<close> loop of \<open>pocsag_crc\<close>: the first argument counts the iterations that are
  left, \<open>i\<close> is the loop variable; the denominator is shifted down once per round.
\<close>

primrec pocsag_crc_loop :: "nat \<Rightarrow> nat \<Rightarrow> u32 \<Rightarrow> u32 \<Rightarrow> u32" where
  "pocsag_crc_loop 0 i word denominator = word"
| "pocsag_crc_loop (Suc k) i word denominator =
     pocsag_crc_loop k (i + 1)
       (if drop_bit (30 - i) word AND 1 \<noteq> 0 then word XOR denominator else word)
       (drop_bit 1 denominator)"

definition pocsag_crc :: "u32 \<Rightarrow> u32" where
  "pocsag_crc word = pocsag_crc_loop 21 0 (push_bit 10 word) 0x76900000 AND 0x3ff"

definition pocsag_parity :: "u32 \<Rightarrow> u32" where
  "pocsag_parity word =
     (let word = word XOR drop_bit 16 word;
          word = word XOR drop_bit 8 word;
          word = word XOR drop_bit 4 word;
          word = word XOR drop_bit 2 word;
          word = word XOR drop_bit 1 word
      in word AND 1)"

text \<open>
  \<open>debug_word\<close> only logs and decides: \<open>Inl EINVAL\<close> is the return value \<open>-EINVAL\<close>,
  \<open>Inr ()\<close> the return value 0.  The slot is used for the log line only.
\<close>

definition debug_word :: "u32 \<Rightarrow> int \<Rightarrow> errno + unit" where
  "debug_word word slot =
     (if pocsag_crc (drop_bit 11 word) \<noteq> (drop_bit 1 word AND 0x3ff) then Inl EINVAL
      else if pocsag_parity word \<noteq> 0 then Inl EINVAL
      else Inr ())"

text \<open>
  \<open>encode_address\<close> reads \<open>msg->ric\<close> and \<open>msg->function\<close>; the enum value of the function
  enters the word as an unsigned integer.
\<close>

definition encode_address :: "u32 \<Rightarrow> u32 \<Rightarrow> u32" where
  "encode_address ric function =
     (let word = 0;
          word = push_bit 18 word OR drop_bit 3 ric;
          word = push_bit 2 word OR function;
          word = push_bit 10 word OR pocsag_crc word;
          word = push_bit 1 word OR pocsag_parity word
      in word)"

subsection \<open>Receiver: \<open>decode_address\<close>, the message decoders, \<open>done_rx_msg\<close>, \<open>put_codeword\<close>\<close>

definition numeric :: string where "numeric = ''0123456789RU -][''"
definition hex :: string where "hex = ''0123456789abcdef''"

definition ctrlchar :: "string list" where
  "ctrlchar =
     [''<NUL>'', ''<SOH>'', ''<STX>'', ''<ETX>'', ''<EOT>'', ''<ENQ>'', ''<ACK>'', ''<BEL>'',
      ''<BS>'', ''<HT>'', ''<LF>'', ''<VT>'', ''<FF>'', ''<CR>'', ''<SO>'', ''<SI>'',
      ''<DLE>'', ''<DC1>'', ''<DC2'', ''<DC3>'', ''<DC4>'', ''<NAK>'', ''<SYN>'', ''<ETB>'',
      ''<CAN>'', ''<EM>'', ''<SUB>'', ''<ESC>'', ''<FS>'', ''<GS>'', ''<RS>'', ''<US>'']"

text \<open>
  The receive side of \<open>pocsag_t\<close>.  \<open>rx_msg_data\<close> is the character array of the
  structure (its length is \<open>sizeof(pocsag->rx_msg_data)\<close>), \<open>rx_msg_data_length\<close> the
  number of characters in use.  \<open>pocsag_msg_receive\<close> lives outside these sources: a call
  to it is recorded by appending its arguments (RIC, function, text) to \<open>received\<close>.
\<close>

record pocsag_t =
  rx_msg_valid :: bool
  rx_msg_ric :: u32
  rx_msg_function :: u32
  rx_msg_data :: "u8 list"
  rx_msg_data_length :: nat
  rx_msg_bit_index :: nat
  received :: "(u32 \<times> u32 \<times> string) list"

definition decode_address :: "u32 \<Rightarrow> u8 \<Rightarrow> u32 \<times> u32" where
  "decode_address word slot =
     ((drop_bit 10 word AND 0x1ffff8) + ucast slot, drop_bit 11 word AND 0x3)"

text \<open>The four-bit digit of \<open>decode_numeric\<close> and \<open>decode_hex\<close>, least significant bit first.\<close>

definition rx_digit :: "u32 \<Rightarrow> nat \<Rightarrow> u8" where
  "rx_digit word i =
     (let digit = ucast (drop_bit (27 - i * 4) word AND 0x1) :: u8;
          digit = push_bit 1 digit OR ucast (drop_bit (28 - i * 4) word AND 0x1);
          digit = push_bit 1 digit OR ucast (drop_bit (29 - i * 4) word AND 0x1);
          digit = push_bit 1 digit OR ucast (drop_bit (30 - i * 4) word AND 0x1)
      in digit)"

primrec decode_table_loop :: "string \<Rightarrow> nat \<Rightarrow> nat \<Rightarrow> u32 \<Rightarrow> pocsag_t \<Rightarrow> pocsag_t" where
  "decode_table_loop tab 0 i word pocsag = pocsag"
| "decode_table_loop tab (Suc k) i word pocsag =
     (if rx_msg_data_length pocsag = length (rx_msg_data pocsag) then pocsag
      else decode_table_loop tab k (i + 1) word
        (pocsag\<lparr>rx_msg_data := (rx_msg_data pocsag)
                     [rx_msg_data_length pocsag := of_char (tab ! unat (rx_digit word i))],
                 rx_msg_data_length := rx_msg_data_length pocsag + 1\<rparr>))"

definition decode_numeric :: "pocsag_t \<Rightarrow> u32 \<Rightarrow> pocsag_t" where
  "decode_numeric pocsag word = decode_table_loop numeric 5 0 word pocsag"

definition decode_hex :: "pocsag_t \<Rightarrow> u32 \<Rightarrow> pocsag_t" where
  "decode_hex pocsag word = decode_table_loop hex 5 0 word pocsag"

primrec decode_alpha_loop :: "nat \<Rightarrow> nat \<Rightarrow> u32 \<Rightarrow> pocsag_t \<Rightarrow> pocsag_t" where
  "decode_alpha_loop 0 i word pocsag = pocsag"
| "decode_alpha_loop (Suc k) i word pocsag =
     (if rx_msg_data_length pocsag = length (rx_msg_data pocsag) then pocsag
      else
        let n = rx_msg_data_length pocsag;
            data = rx_msg_data pocsag;
            data = (if rx_msg_bit_index pocsag = 0 then data[n := 0x00] else data);
            data = data[n := drop_bit 1 (data ! n)];
            data = data[n := data ! n OR ucast (push_bit 6 (drop_bit (30 - i) word AND 0x1))];
            pocsag = pocsag\<lparr>rx_msg_data := data,
                              rx_msg_bit_index := rx_msg_bit_index pocsag + 1\<rparr>;
            pocsag = (if rx_msg_bit_index pocsag = 7
                      then pocsag\<lparr>rx_msg_bit_index := 0, rx_msg_data_length := n + 1\<rparr>
                      else pocsag)
        in decode_alpha_loop k (i + 1) word pocsag)"

definition decode_alpha :: "pocsag_t \<Rightarrow> u32 \<Rightarrow> pocsag_t" where
  "decode_alpha pocsag word = decode_alpha_loop 20 0 word pocsag"

text \<open>
  The text \<open>done_rx_msg\<close> builds from the characters in use: DEL and the control
  characters are spelled out, every other character is copied.
\<close>

definition rx_text_char :: "u8 \<Rightarrow> string" where
  "rx_text_char c =
     (if c = 127 then ''<DEL>''
      else if c < 32 then ctrlchar ! unat c
      else [char_of (unat c)])"

definition done_rx_msg :: "pocsag_t \<Rightarrow> pocsag_t" where
  "done_rx_msg pocsag =
     (if \<not> rx_msg_valid pocsag then pocsag
      else
        let pocsag = pocsag\<lparr>rx_msg_valid := False\<rparr>;
            text = concat (map rx_text_char
                     (take (rx_msg_data_length pocsag) (rx_msg_data pocsag)))
        in pocsag\<lparr>received := received pocsag
                     @ [(rx_msg_ric pocsag, rx_msg_function pocsag, text)]\<rparr>)"

text \<open>
  \<open>put_codeword\<close>.  The values of the enumerators \<open>POCSAG_FUNCTION_NUMERIC\<close> and
  \<open>POCSAG_FUNCTION_ALPHA\<close> are declared in a header that is not part of these sources;
  they are the first two parameters.  \<open>slot\<close> and \<open>subslot\<close> are \<open>int8_t\<close>.
\<close>

definition put_codeword :: "u32 \<Rightarrow> u32 \<Rightarrow> pocsag_t \<Rightarrow> u32 \<Rightarrow> s8 \<Rightarrow> s8 \<Rightarrow> pocsag_t" where
  "put_codeword FUNCTION_NUMERIC FUNCTION_ALPHA pocsag word slot subslot =
     (if sint slot < 0 \<and> word = CODEWORD_SYNC then pocsag
      else case debug_word word (sint slot) of
        Inl rc \<Rightarrow> done_rx_msg pocsag
      | Inr _ \<Rightarrow>
          if word = CODEWORD_IDLE then done_rx_msg pocsag
          else if word AND 0x80000000 = 0 then
            let pocsag = done_rx_msg pocsag;
                pocsag = pocsag\<lparr>rx_msg_valid := True\<rparr>;
                (ric, function) = decode_address word slot
            in pocsag\<lparr>rx_msg_ric := ric, rx_msg_function := function,
                      rx_msg_data_length := 0, rx_msg_bit_index := 0\<rparr>
          else if \<not> rx_msg_valid pocsag then pocsag
          else if rx_msg_function pocsag = FUNCTION_NUMERIC then decode_numeric pocsag word
          else if rx_msg_function pocsag = FUNCTION_ALPHA then decode_alpha pocsag word
          else decode_hex pocsag word)"

text \<open>Feeding a sequence of codewords, each with its slot and sub-slot, in order.\<close>

definition put_codewords ::
  "u32 \<Rightarrow> u32 \<Rightarrow> pocsag_t \<Rightarrow> (u32 \<times> s8 \<times> s8) list \<Rightarrow> pocsag_t" where
  "put_codewords FUNCTION_NUMERIC FUNCTION_ALPHA pocsag ws =
     foldl (\<lambda>p (word, slot, subslot). put_codeword FUNCTION_NUMERIC FUNCTION_ALPHA p word slot subslot)
       pocsag ws"

text \<open>A receiver that holds no message, with an array of four characters.\<close>

definition rx_idle :: pocsag_t where
  "rx_idle = \<lparr>rx_msg_valid = False, rx_msg_ric = 0, rx_msg_function = 0,
              rx_msg_data = replicate 4 0, rx_msg_data_length = 0, rx_msg_bit_index = 0,
              received = []\<rparr>"

section \<open>Radiocom 2000 supervisory digit (src/r2000/r2000.c)\<close>

text \<open>
  \<open>r2000_encode_super\<close> reads \<open>sysinfo.nconv\<close> (\<open>uint8_t\<close>) and \<open>sysinfo.relais\<close>
  (\<open>uint16_t\<close>).  C evaluates the shifts and masks in \<open>int\<close> and stores the result in a
  \<open>uint8_t\<close>.
\<close>

definition r2000_encode_super :: "u8 \<Rightarrow> u16 \<Rightarrow> u8" where
  "r2000_encode_super sysinfo_nconv sysinfo_relais =
     (let nconv = sysinfo_nconv;
          relais = ucast (sysinfo_relais AND 0xf) :: u8;
          n = ucast nconv :: u32;
          r = ucast relais :: u32;
          super = ucast
            ((push_bit 2 n AND 0x04)
              OR (n AND 0x02)
              OR (drop_bit 2 n AND 0x01)
              OR (push_bit 6 r AND 0x40)
              OR (push_bit 4 r AND 0x20)
              OR (push_bit 2 r AND 0x10)
              OR (r AND 0x08)) :: u8
      in super XOR 0x7f)"

text \<open>
  \<open>r2000_receive_super\<close>: the digit is inverted first when the sender is in loopback,
  then \<open>nconv\<close> and \<open>relais\<close> are taken from it.  \<open>super_decode\<close> is that head of the
  function; what follows it in the source only compares the two values.
\<close>

definition super_decode :: "bool \<Rightarrow> u8 \<Rightarrow> u8 \<times> u8" where
  "super_decode loopback super0 =
     (let super = (if loopback then super0 XOR 0x7f else super0);
          s = ucast super :: u32;
          nconv = ucast
            ((drop_bit 2 s AND 0x01)
              OR (s AND 0x02)
              OR (push_bit 2 s AND 0x04)) :: u8;
          relais = ucast
            ((drop_bit 6 s AND 0x01)
              OR (drop_bit 4 s AND 0x02)
              OR (drop_bit 2 s AND 0x04)
              OR (s AND 0x08)) :: u8
      in (nconv, relais))"

datatype super_action = Super_Ignored | Super_Unmute_And_Restart_Timer

definition r2000_receive_super :: "bool \<Rightarrow> bool \<Rightarrow> u8 \<Rightarrow> u16 \<Rightarrow> u8 \<Rightarrow> super_action" where
  "r2000_receive_super loopback state_active sysinfo_nconv sysinfo_relais super =
     (let (nconv, relais) = super_decode loopback super
      in if loopback then Super_Ignored
         else if \<not> state_active then Super_Ignored
         else if relais \<noteq> ucast (sysinfo_relais AND 0xf) \<or> nconv \<noteq> sysinfo_nconv
           then Super_Ignored
         else Super_Unmute_And_Restart_Timer)"

section \<open>C-Netz protocol handling (src/cnetz/cnetz.c)\<close>

subsection \<open>Types\<close>

text \<open>
  The header \<open>cnetz.h\<close> with the structures and enumerations is not among the sources.
  The types below carry the members and enumerators that \<open>cnetz.c\<close> and \<open>dsp.c\<close> use,
  under the names they use.  The transaction states are bit flags in the source, so that
  \<open>search_transaction\<close> can take a mask; here a mask is the list of the states it
  contains, and \<open>TRANS_NULL\<close> is the state value 0.  The sync time of a telegram and
  the correction handed to the demodulator are of type \<open>double\<close>.  In
  \<open>cnetz_kanal2freq\<close> and \<open>dsp_init_sender\<close>, where no decision depends on a rounded
  result, a \<open>double\<close> is a real number.
\<close>

datatype dsp_mode = DSP_SCHED_NONE | DSP_MODE_OGK | DSP_MODE_SPK_K | DSP_MODE_SPK_V

datatype cnetz_state = CNETZ_NULL | CNETZ_IDLE | CNETZ_BUSY

datatype trans_state =
    TRANS_NULL | TRANS_EM | TRANS_UM | TRANS_MA | TRANS_VWG | TRANS_WAF | TRANS_WBP
  | TRANS_WBN | TRANS_VAG | TRANS_VAK | TRANS_BQ | TRANS_VHQ | TRANS_RTA | TRANS_DS
  | TRANS_AHQ | TRANS_AF | TRANS_AT

datatype cause =
    CAUSE_NORMAL | CAUSE_BUSY | CAUSE_NOANSWER | CAUSE_OUTOFORDER | CAUSE_INVALNUMBER
  | CAUSE_NOCHANNEL | CAUSE_TEMPFAIL | CAUSE_INVALCALLREF | CAUSE_OTHER int

datatype cnetz_cause =
    CNETZ_CAUSE_TEILNEHMERBESETZT | CNETZ_CAUSE_GASSENBESETZT | CNETZ_CAUSE_FUNKTECHNISCH

datatype opcode =
    OPCODE_LR_R | OPCODE_EBQ_R | OPCODE_UBQ_R | OPCODE_WBN_R | OPCODE_WBP_R | OPCODE_VAG_R
  | OPCODE_VAK_R | OPCODE_MLR_M | OPCODE_WAF_M | OPCODE_EM_R | OPCODE_UM_R | OPCODE_VWG_R
  | OPCODE_SRG_R | OPCODE_WUE_M | OPCODE_BQ_K | OPCODE_VHQ_K | OPCODE_DSB_K | OPCODE_RTA_K
  | OPCODE_AHQ_K | OPCODE_AF_K | OPCODE_BEL_K | OPCODE_DSQ_K | OPCODE_VH_K | OPCODE_RTAQ_K
  | OPCODE_AH_K | OPCODE_AT_K | OPCODE_VHQ1_V | OPCODE_VHQ2_V | OPCODE_AF_V | OPCODE_VH_V
  | OPCODE_AT_V | OPCODE_OTHER nat

text \<open>
  What the process does instead of returning: \<open>abort()\<close>, or a read through a pointer
  that is null or was freed.
\<close>

datatype fault = Abort | Use_After_Free | Null_Dereference

text \<open>
  Calls that leave \<open>cnetz.c\<close> (call control, the demodulator's sync correction, \<open>free\<close>)
  are recorded in the order in which they happen.  Where the source passes the text of
  \<open>transaction2rufnummer\<close>, the event carries the subscriber's three numbers.
\<close>

datatype event =
    Free_Transaction nat
  | Call_In_Setup int "u8 \<times> u8 \<times> u16" string
  | Call_In_Alerting int
  | Call_In_Answer int "u8 \<times> u8 \<times> u16"
  | Call_In_Release int cause
  | Fsk_Correct_Sync double
  | Log_Error string
  | Log_Notice string

text \<open>
  A transaction.  \<open>addr\<close> is the address \<open>calloc\<close> returned for it; the \<open>next\<close> pointers
  are the order of the list that holds it, and \<open>timer_running\<close> is what
  \<open>timer_running(&trans->timer)\<close> returns.
\<close>

record transaction =
  addr :: nat
  trans_state :: trans_state
  futln_nat :: u8
  futln_fuvst :: u8
  futln_rest :: u16
  mo_call :: bool
  mt_call :: bool
  count :: int
  release_cause :: cnetz_cause
  dialing :: string
  timer_running :: bool

definition futln_of :: "transaction \<Rightarrow> u8 \<times> u8 \<times> u16" where
  "futln_of tr = (futln_nat tr, futln_fuvst tr, futln_rest tr)"

record cnetz_t =
  kanal :: int
  loopback :: bool
  callref :: int
  state :: cnetz_state
  dsp_mode :: dsp_mode
  sched_dsp_mode :: dsp_mode
  sched_switch_mode :: int
  sched_r_m :: int
  sched_ts :: int
  last_tx_timeslot :: int
  scrambler :: int
  auth :: int
  ms_power :: int
  pre_emphasis :: int
  de_emphasis :: int
  trans_list :: "transaction list"
  events :: "event list"

definition CNETZ_OGK_KANAL :: int where "CNETZ_OGK_KANAL = 131"

subsection \<open>\<open>cnetz_kanal2freq\<close> and \<open>cnetz_cause_isdn2cnetz\<close>\<close>


fun cnetz_cause_isdn2cnetz :: "cause \<Rightarrow> cnetz_cause" where
  "cnetz_cause_isdn2cnetz CAUSE_NORMAL = CNETZ_CAUSE_TEILNEHMERBESETZT"
| "cnetz_cause_isdn2cnetz CAUSE_BUSY = CNETZ_CAUSE_TEILNEHMERBESETZT"
| "cnetz_cause_isdn2cnetz CAUSE_NOANSWER = CNETZ_CAUSE_TEILNEHMERBESETZT"
| "cnetz_cause_isdn2cnetz _ = CNETZ_CAUSE_GASSENBESETZT"

subsection \<open>Idle, release and the transaction list\<close>

definition emit :: "event \<Rightarrow> cnetz_t \<Rightarrow> cnetz_t" where
  "emit e cnetz = cnetz\<lparr>events := events cnetz @ [e]\<rparr>"

definition cnetz_go_idle :: "cnetz_t \<Rightarrow> cnetz_t" where
  "cnetz_go_idle cnetz0 =
     (let cnetz = (if callref cnetz0 \<noteq> 0
                   then (emit (Call_In_Release (callref cnetz0) CAUSE_NORMAL)
                          (emit (Log_Error ''Releasing missing callref, please fix!'') cnetz0))
                        \<lparr>callref := 0\<rparr>
                   else cnetz0);
          cnetz = cnetz\<lparr>state := CNETZ_IDLE\<rparr>
      in if dsp_mode cnetz = DSP_MODE_SPK_K \<or> dsp_mode cnetz = DSP_MODE_SPK_V
         then cnetz\<lparr>sched_switch_mode := 1, sched_dsp_mode := DSP_MODE_OGK\<rparr>
         else cnetz\<lparr>sched_switch_mode := 0, dsp_mode := DSP_MODE_OGK\<rparr>)"

text \<open>
  A \<open>transaction_t *\<close> is the address of the transaction; a function that writes through
  the pointer updates the element of the list with that address.
\<close>

definition update_trans :: "nat \<Rightarrow> (transaction \<Rightarrow> transaction) \<Rightarrow> cnetz_t \<Rightarrow> cnetz_t" where
  "update_trans a f cnetz =
     cnetz\<lparr>trans_list := map (\<lambda>t. if addr t = a then f t else t) (trans_list cnetz)\<rparr>"

definition trans_new_state :: "trans_state \<Rightarrow> transaction \<Rightarrow> transaction" where
  "trans_new_state new_state tr = tr\<lparr>trans_state := new_state\<rparr>"

definition timer_start :: "transaction \<Rightarrow> transaction" where
  "timer_start tr = tr\<lparr>timer_running := True\<rparr>"

definition timer_stop :: "transaction \<Rightarrow> transaction" where
  "timer_stop tr = tr\<lparr>timer_running := False\<rparr>"

definition cnetz_release :: "nat \<Rightarrow> cnetz_cause \<Rightarrow> cnetz_t \<Rightarrow> cnetz_t" where
  "cnetz_release a cause cnetz =
     (let cnetz = update_trans a (trans_new_state TRANS_AF) cnetz;
          cnetz = update_trans a (\<lambda>t. t\<lparr>release_cause := cause\<rparr>) cnetz;
          cnetz = cnetz\<lparr>sched_switch_mode := 0\<rparr>;
          cnetz = update_trans a (\<lambda>t. t\<lparr>count := 0\<rparr>) cnetz
      in update_trans a timer_stop cnetz)"

text \<open>
  \<open>destroy_transaction\<close> walks the list for the pointer, aborts when it is not there,
  unlinks the transaction and frees it.
\<close>

fun unlink :: "nat \<Rightarrow> transaction list \<Rightarrow> transaction list option" where
  "unlink a [] = None"
| "unlink a (t # ts) =
     (if addr t = a then Some ts
      else case unlink a ts of None \<Rightarrow> None | Some ts' \<Rightarrow> Some (t # ts'))"

definition destroy_transaction :: "nat \<Rightarrow> cnetz_t \<Rightarrow> fault + cnetz_t" where
  "destroy_transaction a cnetz =
     (case unlink a (trans_list cnetz) of
        None \<Rightarrow> Inl Abort
      | Some ts \<Rightarrow> Inr (emit (Free_Transaction a) (cnetz\<lparr>trans_list := ts\<rparr>)))"

definition same_futln :: "u8 \<Rightarrow> u8 \<Rightarrow> u16 \<Rightarrow> transaction \<Rightarrow> bool" where
  "same_futln nat' fuvst rest tr \<longleftrightarrow>
     futln_nat tr = nat' \<and> futln_fuvst tr = fuvst \<and> futln_rest tr = rest"

text \<open>
  \<open>create_transaction\<close>.  \<open>new\<close> is what \<open>calloc\<close> returns: \<open>None\<close> for a null pointer.
  The result holds the pointer the function returns.  \<open>new_transaction\<close> is the
  zeroed memory after the function has filled it in, before it is linked.
\<close>

definition new_transaction :: "nat \<Rightarrow> trans_state \<Rightarrow> u8 \<Rightarrow> u8 \<Rightarrow> u16 \<Rightarrow> transaction" where
  "new_transaction a st nat' fuvst rest =
     (let tr = \<lparr>addr = a, trans_state = TRANS_NULL, futln_nat = 0, futln_fuvst = 0,
                 futln_rest = 0, mo_call = False, mt_call = False, count = 0,
                 release_cause = CNETZ_CAUSE_TEILNEHMERBESETZT, dialing = [],
                 timer_running = False\<rparr>;
          tr = trans_new_state st tr;
          tr = tr\<lparr>futln_nat := nat', futln_fuvst := fuvst, futln_rest := rest\<rparr>;
          tr = (if st = TRANS_VWG then tr\<lparr>mo_call := True\<rparr> else tr);
          tr = (if st = TRANS_VAK then tr\<lparr>mt_call := True\<rparr> else tr)
      in tr)"

definition create_transaction ::
  "nat option \<Rightarrow> trans_state \<Rightarrow> u8 \<Rightarrow> u8 \<Rightarrow> u16 \<Rightarrow> cnetz_t \<Rightarrow> fault + (nat option \<times> cnetz_t)" where
  "create_transaction new st nat' fuvst rest cnetz0 =
     (case (case find (same_futln nat' fuvst rest) (trans_list cnetz0) of
              None \<Rightarrow> Inr cnetz0
            | Some old \<Rightarrow> destroy_transaction (addr old) cnetz0) of
        Inl f \<Rightarrow> Inl f
      | Inr cnetz \<Rightarrow>
          (case new of
             None \<Rightarrow> Inr (None, emit (Log_Error ''No memory!'') cnetz)
           | Some a \<Rightarrow>
               Inr (Some a,
                    cnetz\<lparr>trans_list := trans_list cnetz @ [new_transaction a st nat' fuvst rest]\<rparr>)))"

definition search_transaction :: "trans_state list \<Rightarrow> cnetz_t \<Rightarrow> transaction option" where
  "search_transaction state_mask cnetz =
     find (\<lambda>t. trans_state t \<in> set state_mask) (trans_list cnetz)"

text \<open>
  \<open>cnetz_flush_other_transactions\<close>.  The first loop tests \<open>trans->next\<close> and destroys
  \<open>trans\<close> itself: when \<open>trans\<close> has a successor the transaction is freed and the loop
  condition then reads it again.  The second loop destroys the head of the list until the
  head is \<open>trans\<close>; with an empty list the head is a null pointer.
\<close>

definition has_next :: "nat \<Rightarrow> transaction list \<Rightarrow> bool" where
  "has_next a ts \<longleftrightarrow> (case dropWhile (\<lambda>t. addr t \<noteq> a) ts of [] \<Rightarrow> False | t # rest \<Rightarrow> rest \<noteq> [])"

function flush_before :: "nat \<Rightarrow> cnetz_t \<Rightarrow> fault + cnetz_t" where
  "flush_before a cnetz =
     (case trans_list cnetz of
        [] \<Rightarrow> Inl Null_Dereference
      | t # ts \<Rightarrow>
          if addr t = a then Inr cnetz
          else case destroy_transaction (addr t) (emit (Log_Notice ''Kicking other pending transaction'') cnetz) of
                 Inl f \<Rightarrow> Inl f
               | Inr cnetz' \<Rightarrow> flush_before a cnetz')"
  by pat_completeness auto
termination
  by (relation "measure (\<lambda>(a, cnetz). length (trans_list cnetz))")
     (auto simp: destroy_transaction_def emit_def split: option.splits if_splits)

declare flush_before.simps [simp del]

definition cnetz_flush_other_transactions :: "nat \<Rightarrow> cnetz_t \<Rightarrow> fault + cnetz_t" where
  "cnetz_flush_other_transactions a cnetz =
     (if has_next a (trans_list cnetz)
      then (case destroy_transaction a (emit (Log_Notice ''Kicking other pending transaction'') cnetz) of
              Inl f \<Rightarrow> Inl f
            | Inr _ \<Rightarrow> Inl Use_After_Free)
      else flush_before a cnetz)"

subsection \<open>\<open>cnetz_sync_frame\<close>\<close>

text \<open>
  \<open>BITS_PER_BLOCK\<close> and \<open>BITS_PER_SUPERFRAME\<close> are macros of a header that is not among
  the sources; they are parameters, taken to be constants of type \<open>double\<close>.
  \<open>fsk_correct_sync\<close> belongs to the demodulator: the call is recorded with its argument.
  \<open>sync_offset\<close> is the value of \<open>offset\<close> before the comparison with 0.5.
\<close>

definition sync_offset :: "double \<Rightarrow> double \<Rightarrow> double \<Rightarrow> int \<Rightarrow> double" where
  "sync_offset BITS_PER_BLOCK BITS_PER_SUPERFRAME sync block =
     (if block \<ge> 0 then
        let offset = d_fmod (d_add (d_sub sync (d_mul BITS_PER_BLOCK (d_of_int block)))
                               BITS_PER_SUPERFRAME)
                       BITS_PER_SUPERFRAME
        in if d_less (d_half BITS_PER_SUPERFRAME) offset then d_sub offset BITS_PER_SUPERFRAME
           else offset
      else
        let offset = d_fmod sync BITS_PER_BLOCK
        in if d_less (d_half BITS_PER_BLOCK) offset then d_sub offset BITS_PER_BLOCK else offset)"

definition cnetz_sync_frame :: "double \<Rightarrow> double \<Rightarrow> double \<Rightarrow> int \<Rightarrow> cnetz_t \<Rightarrow> cnetz_t" where
  "cnetz_sync_frame BITS_PER_BLOCK BITS_PER_SUPERFRAME sync block cnetz =
     (let offset = sync_offset BITS_PER_BLOCK BITS_PER_SUPERFRAME sync block
      in if d_less offset (Num (- 0.5)) \<or> d_less (Num 0.5) offset
         then emit (Fsk_Correct_Sync offset) cnetz
         else emit (Fsk_Correct_Sync (d_half offset)) cnetz)"

subsection \<open>\<open>call_out_setup\<close>\<close>

text \<open>
  A \<open>char *\<close> argument is the characters before the first NUL.  \<open>atoi\<close> skips white
  space, takes a sign and then reads decimal digits as far as they go.
\<close>

definition c_str :: "string \<Rightarrow> string" where
  "c_str s = takeWhile (\<lambda>c. c \<noteq> CHR 0x00) s"

definition is_digit :: "char \<Rightarrow> bool" where
  "is_digit c \<longleftrightarrow> \<not> ((of_char c :: nat) < of_char CHR ''0'' \<or> (of_char c :: nat) > of_char CHR ''9'')"

definition isspace :: "char \<Rightarrow> bool" where
  "isspace c \<longleftrightarrow> c = CHR '' '' \<or> (9 \<le> (of_char c :: nat) \<and> (of_char c :: nat) \<le> 13)"

fun atoi_digits :: "int \<Rightarrow> string \<Rightarrow> int" where
  "atoi_digits acc [] = acc"
| "atoi_digits acc (c # cs) =
     (if is_digit c then atoi_digits (acc * 10 + (of_char c - of_char CHR ''0'')) cs else acc)"

definition atoi :: "string \<Rightarrow> int" where
  "atoi s =
     (case dropWhile isspace s of
        [] \<Rightarrow> 0
      | c # cs \<Rightarrow>
          if c = CHR ''-'' then - atoi_digits 0 cs
          else if c = CHR ''+'' then atoi_digits 0 cs
          else atoi_digits 0 (c # cs))"

primrec first_idle :: "cnetz_t list \<Rightarrow> nat option" where
  "first_idle [] = None"
| "first_idle (s # ss) =
     (if state s = CNETZ_IDLE then Some 0
      else case first_idle ss of None \<Rightarrow> None | Some i \<Rightarrow> Some (Suc i))"

text \<open>
  \<open>call_out_setup\<close> works on the list of senders.  \<open>Inr (Some c, senders)\<close> is the return
  value \<open>-c\<close>, \<open>Inr (None, senders)\<close> the return value 0.  \<open>new\<close> is the result of the
  \<open>calloc\<close> in \<open>create_transaction\<close>.
\<close>

definition call_out_setup ::
  "nat option \<Rightarrow> int \<Rightarrow> string \<Rightarrow> cnetz_t list \<Rightarrow> fault + (cause option \<times> cnetz_t list)" where
  "call_out_setup new callref' dialing0 sender_head =
     (let dialing = c_str dialing0;
          dialing = (if length dialing = 11 \<and> take 4 dialing = ''0160''
                     then drop 4 dialing else dialing)
      in if length dialing \<noteq> 7 then Inr (Some CAUSE_INVALNUMBER, sender_head)
         else if \<not> list_all (\<lambda>i. is_digit (dialing ! i)) [0..<7]
           then Inr (Some CAUSE_INVALNUMBER, sender_head)
         else if atoi (drop 2 dialing) > 65535 then Inr (Some CAUSE_INVALNUMBER, sender_head)
         else
           let nat' = (of_char (dialing ! 0) - of_char CHR ''0'' :: u8);
               fuvst = (of_char (dialing ! 1) - of_char CHR ''0'' :: u8);
               rest = (word_of_int (atoi (drop 2 dialing)) :: u16)
           in if list_ex (\<lambda>sender. list_ex (same_futln nat' fuvst rest) (trans_list sender))
                   sender_head
              then Inr (Some CAUSE_BUSY, sender_head)
              else
                case first_idle sender_head of
                  None \<Rightarrow> Inr (Some CAUSE_NOCHANNEL, sender_head)
                | Some i \<Rightarrow>
                    let cnetz = (sender_head ! i)\<lparr>callref := callref'\<rparr>
                    in case create_transaction new TRANS_VAK
                              (of_char (dialing ! 0) - of_char CHR ''0'')
                              (of_char (dialing ! 1) - of_char CHR ''0'')
                              (word_of_int (atoi (drop 2 dialing))) cnetz of
                         Inl f \<Rightarrow> Inl f
                       | Inr (None, cnetz) \<Rightarrow>
                           Inr (Some CAUSE_TEMPFAIL,
                                sender_head[i := (emit (Log_Error ''Failed to create transaction'') cnetz)
                                                   \<lparr>callref := 0\<rparr>])
                       | Inr (Some a, cnetz) \<Rightarrow>
                           (case cnetz_flush_other_transactions a (cnetz\<lparr>state := CNETZ_BUSY\<rparr>) of
                              Inl f \<Rightarrow> Inl f
                            | Inr cnetz \<Rightarrow> Inr (None, sender_head[i := cnetz])))"

subsection \<open>\<open>cnetz_create\<close> and \<open>dsp_init_sender\<close>\<close>

text \<open>
  What the functions called by \<open>cnetz_create\<close> and \<open>dsp_init_sender\<close> return is given by
  an environment: whether each \<open>calloc\<close> succeeds, and the return code of \<open>sender_create\<close>,
  \<open>fsk_fm_init\<close>, \<open>jitter_create\<close> and \<open>init_emphasis\<close> (\<open>None\<close> for a code that is not
  negative).
\<close>

record create_env =
  calloc_cnetz :: bool
  sender_create_rc :: "errno option"
  calloc_tx_buffer :: bool
  calloc_speech_buffer :: bool
  fsk_fm_init_rc :: "errno option"
  jitter_create_rc :: "errno option"
  init_emphasis_rc :: "errno option"

definition dsp_init_sender :: "create_env \<Rightarrow> real \<Rightarrow> real \<Rightarrow> event list \<times> errno option" where
  "dsp_init_sender env clock_speed0 clock_speed1 =
     (if clock_speed0 > 1000 \<or> clock_speed0 < - 1000 \<or> clock_speed1 > 1000 \<or> clock_speed1 < - 1000
      then ([Log_Error ''Clock speed out of range!''], Some EINVAL)
      else if \<not> calloc_tx_buffer env then ([], Some ENOMEM)
      else if \<not> calloc_speech_buffer env then ([], Some ENOMEM)
      else if fsk_fm_init_rc env \<noteq> None then ([], fsk_fm_init_rc env)
      else if jitter_create_rc env \<noteq> None then ([], jitter_create_rc env)
      else ([], None))"

text \<open>
  \<open>cnetz_create\<close> returns the lines it logs at error and notice level and either the
  error (\<open>Inl e\<close> for the return value \<open>-e\<close>) or the instance it has linked (return value 0).
  The instance starts as \<open>calloc\<close> leaves it, all members zero.
\<close>

definition cnetz_calloc :: cnetz_t where
  "cnetz_calloc =
     \<lparr>kanal = 0, loopback = False, callref = 0, state = CNETZ_NULL,
      dsp_mode = DSP_SCHED_NONE, sched_dsp_mode = DSP_SCHED_NONE,
      sched_switch_mode = 0, sched_r_m = 0, sched_ts = 0,
      last_tx_timeslot = 0, scrambler = 0, auth = 0, ms_power = 0,
      pre_emphasis = 0, de_emphasis = 0, trans_list = [], events = []\<rparr>"

definition cnetz_create ::
  "create_env \<Rightarrow> int \<Rightarrow> int \<Rightarrow> int \<Rightarrow> int \<Rightarrow> int \<Rightarrow> real \<Rightarrow> real \<Rightarrow> bool
     \<Rightarrow> event list \<times> (errno + cnetz_t)" where
  "cnetz_create env pre_emphasis' de_emphasis' kanal' auth' ms_power' clock_speed0 clock_speed1 loopback' =
     (if kanal' AND 1 \<noteq> 0 \<and> kanal' < 1 \<and> kanal' > 947
      then ([Log_Error ''Channel ('Kanal') number invalid.''], Inl EINVAL)
      else if \<not> (kanal' AND 1 \<noteq> 0) \<and> kanal' < 2 \<and> kanal' > 758
      then ([Log_Error ''Channel ('Kanal') number invalid.''], Inl EINVAL)
      else
        let log = (if kanal' = 1 \<or> kanal' = 2
                   then [Log_Notice ''Channel ('Kanal') number is specified as 'unused', it might not work!'']
                   else []);
            log = log @ (if kanal' = CNETZ_OGK_KANAL
                   then [Log_Notice ''You selected channel ('Orga-Kanal') for speech channel. Some phones will reject this.'']
                   else [])
        in if \<not> calloc_cnetz env then (log @ [Log_Error ''No memory!''], Inl ENOMEM)
           else
             let cnetz = cnetz_calloc
             in case sender_create_rc env of
                  Some rc \<Rightarrow> (log @ [Log_Error ''Failed to init transceiver process!''], Inl rc)
                | None \<Rightarrow>
                    let cnetz = cnetz\<lparr>kanal := kanal', loopback := loopback'\<rparr>;
                        (dsp_log, dsp_rc) = dsp_init_sender env clock_speed0 clock_speed1
                    in case dsp_rc of
                         Some rc \<Rightarrow>
                           (log @ dsp_log @ [Log_Error ''Failed to init signal processing!''], Inl rc)
                       | None \<Rightarrow>
                           let cnetz = cnetz\<lparr>auth := auth', ms_power := ms_power',
                                             pre_emphasis := pre_emphasis',
                                             de_emphasis := de_emphasis'\<rparr>
                           in case init_emphasis_rc env of
                                Some rc \<Rightarrow> (log @ dsp_log, Inl rc)
                              | None \<Rightarrow>
                                  let cnetz = cnetz\<lparr>dsp_mode := DSP_MODE_OGK,
                                                    sched_dsp_mode := DSP_MODE_OGK,
                                                    sched_switch_mode := 0\<rparr>
                                  in (log @ dsp_log, Inr (cnetz_go_idle cnetz)))"

subsection \<open>\<open>call_out_disconnect\<close>, \<open>call_out_release\<close>, \<open>transaction_timeout\<close>\<close>

primrec find_callref :: "int \<Rightarrow> cnetz_t list \<Rightarrow> nat option" where
  "find_callref c [] = None"
| "find_callref c (s # ss) =
     (if callref s = c then Some 0
      else case find_callref c ss of None \<Rightarrow> None | Some i \<Rightarrow> Some (Suc i))"

text \<open>
  Both functions return the calls to \<open>call_in_release\<close> they make themselves, and the
  senders.
\<close>

definition call_out_disconnect ::
  "int \<Rightarrow> cause \<Rightarrow> cnetz_t list \<Rightarrow> fault + (event list \<times> cnetz_t list)" where
  "call_out_disconnect callref' cause' sender_head =
     (case find_callref callref' sender_head of
        None \<Rightarrow> Inr ([Call_In_Release callref' CAUSE_INVALCALLREF], sender_head)
      | Some i \<Rightarrow>
          let cnetz = sender_head ! i
          in if state cnetz \<noteq> CNETZ_BUSY
             then Inr ([Call_In_Release callref' cause'], sender_head[i := cnetz\<lparr>callref := 0\<rparr>])
             else case trans_list cnetz of
               [] \<Rightarrow> Inr ([Call_In_Release callref' cause'], sender_head[i := cnetz\<lparr>callref := 0\<rparr>])
             | tr # _ \<Rightarrow>
                 (case dsp_mode cnetz of
                    DSP_MODE_SPK_V \<Rightarrow> Inr ([], sender_head)
                  | DSP_MODE_SPK_K \<Rightarrow>
                      let cnetz = cnetz_release (addr tr) (cnetz_cause_isdn2cnetz cause') cnetz
                      in Inr ([Call_In_Release callref' cause'],
                              sender_head[i := cnetz\<lparr>callref := 0\<rparr>])
                  | _ \<Rightarrow>
                      (case destroy_transaction (addr tr) cnetz of
                         Inl f \<Rightarrow> Inl f
                       | Inr cnetz \<Rightarrow>
                           let cnetz = cnetz_go_idle cnetz
                           in Inr ([Call_In_Release callref' cause'],
                                   sender_head[i := cnetz\<lparr>callref := 0\<rparr>]))))"

definition call_out_release ::
  "int \<Rightarrow> cause \<Rightarrow> cnetz_t list \<Rightarrow> fault + cnetz_t list" where
  "call_out_release callref' cause' sender_head =
     (case find_callref callref' sender_head of
        None \<Rightarrow> Inr sender_head
      | Some i \<Rightarrow>
          let cnetz = (sender_head ! i)\<lparr>callref := 0\<rparr>
          in if state cnetz \<noteq> CNETZ_BUSY then Inr (sender_head[i := cnetz])
             else case trans_list cnetz of
               [] \<Rightarrow> Inr (sender_head[i := cnetz])
             | tr # _ \<Rightarrow>
                 if dsp_mode cnetz = DSP_MODE_SPK_K \<or> dsp_mode cnetz = DSP_MODE_SPK_V
                 then Inr (sender_head[i := cnetz_release (addr tr) (cnetz_cause_isdn2cnetz cause') cnetz])
                 else case destroy_transaction (addr tr) cnetz of
                        Inl f \<Rightarrow> Inl f
                      | Inr cnetz \<Rightarrow> Inr (sender_head[i := cnetz_go_idle cnetz]))"

text \<open>
  \<open>transaction_timeout\<close> is the handler of a transaction's timer; \<open>tr\<close> is the transaction
  the timer belongs to, as it stands in the list of \<open>cnetz\<close>.
\<close>

definition release_upward :: "cause \<Rightarrow> cnetz_t \<Rightarrow> cnetz_t" where
  "release_upward c cnetz = (emit (Call_In_Release (callref cnetz) c) cnetz)\<lparr>callref := 0\<rparr>"

definition transaction_timeout :: "transaction \<Rightarrow> cnetz_t \<Rightarrow> cnetz_t" where
  "transaction_timeout tr cnetz =
     (case trans_state tr of
        TRANS_WAF \<Rightarrow>
          let cnetz = update_trans (addr tr) (\<lambda>t. t\<lparr>count := count t + 1\<rparr>) cnetz
          in if count tr + 1 = 3
             then update_trans (addr tr) (trans_new_state TRANS_WBN) cnetz
             else update_trans (addr tr) (trans_new_state TRANS_VWG) cnetz
      | TRANS_BQ \<Rightarrow>
          let cnetz = (if mt_call tr then release_upward CAUSE_OUTOFORDER cnetz else cnetz)
          in cnetz_release (addr tr) CNETZ_CAUSE_FUNKTECHNISCH cnetz
      | TRANS_VHQ \<Rightarrow>
          let cnetz = (if mt_call tr \<or> mo_call tr then release_upward CAUSE_TEMPFAIL cnetz else cnetz)
          in cnetz_release (addr tr) CNETZ_CAUSE_FUNKTECHNISCH cnetz
      | TRANS_DS \<Rightarrow>
          cnetz_release (addr tr) CNETZ_CAUSE_FUNKTECHNISCH (release_upward CAUSE_TEMPFAIL cnetz)
      | TRANS_RTA \<Rightarrow>
          cnetz_release (addr tr) CNETZ_CAUSE_FUNKTECHNISCH (release_upward CAUSE_TEMPFAIL cnetz)
      | TRANS_AHQ \<Rightarrow>
          cnetz_release (addr tr) CNETZ_CAUSE_FUNKTECHNISCH (release_upward CAUSE_TEMPFAIL cnetz)
      | _ \<Rightarrow> emit (Log_Error ''Timeout unhandled in state'') cnetz)"

subsection \<open>Transmitting on OgK and SpK\<close>

text \<open>
  Of a telegram to be sent the model keeps the opcode (\<open>None\<close> is the value 0 that
  \<open>memset\<close> leaves), the subscriber and the channel number; the members copied from the
  static system information are left out.  \<open>N_AFKT\<close> and \<open>N_AFV\<close> are macros of a header
  that is not among the sources; they are parameters.
\<close>

record tx_telegramm =
  tx_opcode :: "opcode option"
  tx_futln :: "(u8 \<times> u8 \<times> u16) option"
  tx_frequenz_nr :: int
  tx_zeitschlitz_nr :: int

definition tx_zero :: tx_telegramm where
  "tx_zero = \<lparr>tx_opcode = None, tx_futln = None, tx_frequenz_nr = 0, tx_zeitschlitz_nr = 0\<rparr>"

definition destroy_and_idle :: "nat \<Rightarrow> cnetz_t \<Rightarrow> fault + cnetz_t" where
  "destroy_and_idle a cnetz =
     (case destroy_transaction a cnetz of Inl f \<Rightarrow> Inl f | Inr cnetz \<Rightarrow> Inr (cnetz_go_idle cnetz))"

definition rufblock_assign ::
  "opcode \<Rightarrow> transaction \<Rightarrow> tx_telegramm \<Rightarrow> cnetz_t \<Rightarrow> tx_telegramm \<times> cnetz_t" where
  "rufblock_assign oc tr telegramm cnetz =
     (let telegramm = telegramm\<lparr>tx_opcode := Some oc, tx_frequenz_nr := kanal cnetz\<rparr>;
          cnetz = update_trans (addr tr)
                    (\<lambda>t. timer_start ((trans_new_state TRANS_BQ t)\<lparr>count := 0\<rparr>)) cnetz
      in (telegramm, cnetz\<lparr>sched_switch_mode := 2, sched_dsp_mode := DSP_MODE_SPK_K\<rparr>))"

definition cnetz_transmit_telegramm_rufblock :: "cnetz_t \<Rightarrow> fault + (tx_telegramm \<times> cnetz_t)" where
  "cnetz_transmit_telegramm_rufblock cnetz =
     (let telegramm = tx_zero\<lparr>tx_opcode := Some OPCODE_LR_R, tx_zeitschlitz_nr := sched_ts cnetz\<rparr>
      in case search_transaction [TRANS_EM, TRANS_UM, TRANS_WBN, TRANS_WBP, TRANS_VAG, TRANS_VAK] cnetz of
           None \<Rightarrow> Inr (telegramm, cnetz)
         | Some tr \<Rightarrow>
             let telegramm = telegramm\<lparr>tx_futln := Some (futln_of tr)\<rparr>
             in (case trans_state tr of
                   TRANS_EM \<Rightarrow>
                     (case destroy_transaction (addr tr) cnetz of
                        Inl f \<Rightarrow> Inl f
                      | Inr cnetz \<Rightarrow> Inr (telegramm\<lparr>tx_opcode := Some OPCODE_EBQ_R\<rparr>, cnetz))
                 | TRANS_UM \<Rightarrow>
                     (case destroy_transaction (addr tr) cnetz of
                        Inl f \<Rightarrow> Inl f
                      | Inr cnetz \<Rightarrow> Inr (telegramm\<lparr>tx_opcode := Some OPCODE_UBQ_R\<rparr>, cnetz))
                 | TRANS_WBN \<Rightarrow>
                     (case destroy_and_idle (addr tr) cnetz of
                        Inl f \<Rightarrow> Inl f
                      | Inr cnetz \<Rightarrow> Inr (telegramm\<lparr>tx_opcode := Some OPCODE_WBN_R\<rparr>, cnetz))
                 | TRANS_WBP \<Rightarrow>
                     Inr (telegramm\<lparr>tx_opcode := Some OPCODE_WBP_R\<rparr>,
                          update_trans (addr tr) (trans_new_state TRANS_VAG) cnetz)
                 | TRANS_VAG \<Rightarrow> Inr (rufblock_assign OPCODE_VAG_R tr telegramm cnetz)
                 | TRANS_VAK \<Rightarrow> Inr (rufblock_assign OPCODE_VAK_R tr telegramm cnetz)
                 | _ \<Rightarrow> Inr (telegramm, cnetz)))"

definition cnetz_transmit_telegramm_meldeblock :: "cnetz_t \<Rightarrow> fault + (tx_telegramm \<times> cnetz_t)" where
  "cnetz_transmit_telegramm_meldeblock cnetz =
     (let telegramm = tx_zero\<lparr>tx_opcode := Some OPCODE_MLR_M\<rparr>
      in case search_transaction [TRANS_VWG] cnetz of
           None \<Rightarrow> Inr (telegramm, cnetz)
         | Some tr \<Rightarrow>
             Inr (telegramm\<lparr>tx_opcode := Some OPCODE_WAF_M, tx_futln := Some (futln_of tr)\<rparr>,
                  update_trans (addr tr) (\<lambda>t. timer_start (trans_new_state TRANS_WAF t)) cnetz))"

text \<open>
  \<open>cnetz_transmit_telegramm_spk_k\<close>.  \<open>new_callref\<close> is the static counter of the file,
  returned with its new value; \<open>setup_rc\<close> is what \<open>call_in_setup\<close> returns when it is
  called: \<open>Some c\<close> for the negative value \<open>-c\<close>.
\<close>

definition spk_af_k :: "int \<Rightarrow> transaction \<Rightarrow> tx_telegramm \<Rightarrow> cnetz_t \<Rightarrow> fault + (tx_telegramm \<times> cnetz_t)" where
  "spk_af_k N_AFKT tr telegramm cnetz =
     (let telegramm = telegramm\<lparr>tx_opcode := Some OPCODE_AF_K\<rparr>;
          cnetz = update_trans (addr tr) (\<lambda>t. t\<lparr>count := count t + 1\<rparr>) cnetz
      in if count tr + 1 = N_AFKT
         then (case destroy_and_idle (addr tr) cnetz of
                 Inl f \<Rightarrow> Inl f | Inr cnetz \<Rightarrow> Inr (telegramm, cnetz))
         else Inr (telegramm, cnetz))"

definition cnetz_transmit_telegramm_spk_k ::
  "int \<Rightarrow> cause option \<Rightarrow> int \<Rightarrow> cnetz_t \<Rightarrow> fault + (tx_telegramm \<times> int \<times> cnetz_t)" where
  "cnetz_transmit_telegramm_spk_k N_AFKT setup_rc new_callref cnetz =
     (case trans_list cnetz of
        [] \<Rightarrow> Inr (tx_zero, new_callref, cnetz)
      | tr # _ \<Rightarrow>
          let telegramm = tx_zero\<lparr>tx_futln := Some (futln_of tr), tx_frequenz_nr := kanal cnetz\<rparr>;
              a = addr tr;
              with_ref = (\<lambda>r. case r of Inl f \<Rightarrow> Inl f | Inr (t, c) \<Rightarrow> Inr (t, new_callref, c))
          in (case trans_state tr of
                TRANS_BQ \<Rightarrow>
                  let cnetz = update_trans a (\<lambda>t. t\<lparr>count := count t + 1\<rparr>) cnetz;
                      cnetz = (if count tr + 1 \<ge> 8 \<and> \<not> timer_running tr
                               then update_trans a
                                 (\<lambda>t. timer_start ((trans_new_state TRANS_VHQ t)\<lparr>count := 0\<rparr>)) cnetz
                               else cnetz)
                  in Inr (telegramm\<lparr>tx_opcode := Some OPCODE_BQ_K\<rparr>, new_callref, cnetz)
              | TRANS_VHQ \<Rightarrow>
                  let telegramm = telegramm\<lparr>tx_opcode := Some OPCODE_VHQ_K\<rparr>
                  in if sched_ts cnetz AND 7 = 7 \<and> sched_r_m cnetz \<noteq> 0 \<and> \<not> timer_running tr
                     then
                       (case (if mo_call tr then setup_rc else None) of
                          Some rc \<Rightarrow>
                            let cnetz = emit (Call_In_Setup (new_callref + 1) (futln_of tr) (dialing tr)) cnetz;
                                cnetz = cnetz_release a (cnetz_cause_isdn2cnetz rc) cnetz
                            in (case spk_af_k N_AFKT (tr\<lparr>count := 0\<rparr>) telegramm cnetz of
                                  Inl f \<Rightarrow> Inl f
                                | Inr (t, c) \<Rightarrow> Inr (t, new_callref + 1, c))
                        | None \<Rightarrow>
                            let (ref, cnetz) =
                                  (if mo_call tr
                                   then (new_callref + 1,
                                         update_trans a
                                           (\<lambda>t. timer_start ((trans_new_state TRANS_DS t)\<lparr>count := 0\<rparr>))
                                           ((emit (Call_In_Setup (new_callref + 1) (futln_of tr) (dialing tr))
                                               cnetz)\<lparr>callref := new_callref + 1\<rparr>))
                                   else (new_callref, cnetz));
                                cnetz =
                                  (if mt_call tr
                                   then emit (Call_In_Alerting (callref cnetz))
                                          (update_trans a
                                             (\<lambda>t. (timer_start (trans_new_state TRANS_RTA t))\<lparr>count := 0\<rparr>)
                                             cnetz)
                                   else cnetz)
                            in Inr (telegramm, ref, cnetz))
                     else Inr (telegramm, new_callref, cnetz)
              | TRANS_DS \<Rightarrow>
                  let telegramm = telegramm\<lparr>tx_opcode := Some OPCODE_DSB_K\<rparr>
                  in if sched_ts cnetz AND 7 = 7 \<and> sched_r_m cnetz \<noteq> 0 \<and> \<not> timer_running tr
                     then
                       let cnetz = update_trans a (\<lambda>t. (trans_new_state TRANS_VHQ t)\<lparr>count := 0\<rparr>) cnetz;
                           cnetz = cnetz\<lparr>sched_switch_mode := 1, sched_dsp_mode := DSP_MODE_SPK_V\<rparr>
                       in Inr (telegramm, new_callref, update_trans a timer_start cnetz)
                     else Inr (telegramm, new_callref, cnetz)
              | TRANS_RTA \<Rightarrow> Inr (telegramm\<lparr>tx_opcode := Some OPCODE_RTA_K\<rparr>, new_callref, cnetz)
              | TRANS_AHQ \<Rightarrow>
                  let telegramm = telegramm\<lparr>tx_opcode := Some OPCODE_AHQ_K\<rparr>
                  in if sched_ts cnetz AND 7 = 7 \<and> sched_r_m cnetz \<noteq> 0
                     then
                       let cnetz = update_trans a (\<lambda>t. (trans_new_state TRANS_VHQ t)\<lparr>count := 0\<rparr>) cnetz;
                           cnetz = cnetz\<lparr>sched_switch_mode := 1, sched_dsp_mode := DSP_MODE_SPK_V\<rparr>
                       in Inr (telegramm, new_callref, update_trans a timer_start cnetz)
                     else Inr (telegramm, new_callref, cnetz)
              | TRANS_AF \<Rightarrow> with_ref (spk_af_k N_AFKT tr telegramm cnetz)
              | TRANS_AT \<Rightarrow> with_ref (spk_af_k 1 tr telegramm cnetz)
              | _ \<Rightarrow> Inr (telegramm, new_callref, cnetz)))"

definition cnetz_transmit_telegramm_spk_v :: "int \<Rightarrow> cnetz_t \<Rightarrow> fault + (tx_telegramm \<times> cnetz_t)" where
  "cnetz_transmit_telegramm_spk_v N_AFV cnetz =
     (case trans_list cnetz of
        [] \<Rightarrow> Inr (tx_zero, cnetz)
      | tr # _ \<Rightarrow>
          let telegramm = tx_zero\<lparr>tx_futln := Some (futln_of tr), tx_frequenz_nr := kanal cnetz\<rparr>;
              af_v = (\<lambda>n.
                let telegramm = telegramm\<lparr>tx_opcode := Some OPCODE_AF_V\<rparr>;
                    cnetz = update_trans (addr tr) (\<lambda>t. t\<lparr>count := count t + 1\<rparr>) cnetz
                in if count tr + 1 = n
                   then (case destroy_and_idle (addr tr) cnetz of
                           Inl f \<Rightarrow> Inl f | Inr cnetz \<Rightarrow> Inr (telegramm, cnetz))
                   else Inr (telegramm, cnetz))
          in (case trans_state tr of
                TRANS_VHQ \<Rightarrow>
                  if sched_ts cnetz AND 8 = 0
                  then Inr (telegramm\<lparr>tx_opcode := Some OPCODE_VHQ1_V\<rparr>, cnetz)
                  else Inr (telegramm\<lparr>tx_opcode := Some OPCODE_VHQ2_V\<rparr>, cnetz)
              | TRANS_AF \<Rightarrow> af_v N_AFV
              | TRANS_AT \<Rightarrow> af_v 1
              | _ \<Rightarrow> Inr (telegramm, cnetz)))"

subsection \<open>Receiving on OgK and SpK\<close>

text \<open>
  Of a received telegram the functions read the opcode, the subscriber, the dialled
  digits, the mode of operation and the sync time.  \<open>match_fuz\<close> and \<open>match_futln\<close> are
  not among the sources: what they return for the telegram is a parameter.
  \<open>dialing_size\<close> is \<open>sizeof(trans->dialing)\<close>.
\<close>

record rx_telegramm =
  rx_opcode :: opcode
  futln_nationalitaet :: u8
  futln_heimat_fuvst_nr :: u8
  futln_rest_nr :: u16
  wahlziffern :: string
  betriebs_art :: int
  sync_time :: double

definition ogk_create ::
  "nat option \<Rightarrow> trans_state \<Rightarrow> rx_telegramm \<Rightarrow> cnetz_t \<Rightarrow> fault + (nat option \<times> cnetz_t)" where
  "ogk_create new st telegramm cnetz =
     create_transaction new st (futln_nationalitaet telegramm) (futln_heimat_fuvst_nr telegramm)
       (futln_rest_nr telegramm) cnetz"

definition ogk_finish :: "double \<Rightarrow> double \<Rightarrow> rx_telegramm \<Rightarrow> int \<Rightarrow> bool \<Rightarrow> cnetz_t \<Rightarrow> fault + cnetz_t" where
  "ogk_finish BITS_PER_BLOCK BITS_PER_SUPERFRAME telegramm block valid_frame cnetz =
     (if loopback cnetz then Inl Abort
      else if valid_frame
        then Inr (cnetz_sync_frame BITS_PER_BLOCK BITS_PER_SUPERFRAME (sync_time telegramm) block cnetz)
        else Inr cnetz)"

definition cnetz_receive_telegramm_ogk ::
  "double \<Rightarrow> double \<Rightarrow> nat \<Rightarrow> bool \<Rightarrow> nat option \<Rightarrow> rx_telegramm \<Rightarrow> int \<Rightarrow> cnetz_t \<Rightarrow> fault + cnetz_t" where
  "cnetz_receive_telegramm_ogk BITS_PER_BLOCK BITS_PER_SUPERFRAME dialing_size match_fuz new
       telegramm block cnetz =
     (let finish = ogk_finish BITS_PER_BLOCK BITS_PER_SUPERFRAME telegramm block;
          attach = (\<lambda>st.
            if \<not> match_fuz then finish False cnetz
            else if state cnetz \<noteq> CNETZ_IDLE then finish False cnetz
            else case ogk_create new st telegramm cnetz of
                   Inl f \<Rightarrow> Inl f
                 | Inr (None, cnetz) \<Rightarrow> finish False (emit (Log_Error ''Failed to create transaction'') cnetz)
                 | Inr (Some a, cnetz) \<Rightarrow> finish True cnetz)
      in case rx_opcode telegramm of
           OPCODE_EM_R \<Rightarrow> attach TRANS_EM
         | OPCODE_UM_R \<Rightarrow> attach TRANS_UM
         | OPCODE_WUE_M \<Rightarrow>
             (case search_transaction [TRANS_WAF, TRANS_WBP, TRANS_VAG] cnetz of
                None \<Rightarrow> finish False cnetz
              | Some tr \<Rightarrow>
                  finish True
                    (update_trans (addr tr)
                       (\<lambda>t. trans_new_state TRANS_WBP
                              (timer_stop (t\<lparr>dialing := take (dialing_size - 1) (c_str (wahlziffern telegramm))\<rparr>)))
                       cnetz))
         | oc \<Rightarrow>
             if oc = OPCODE_VWG_R \<or> oc = OPCODE_SRG_R then
               if \<not> match_fuz then finish False cnetz
               else if state cnetz \<noteq> CNETZ_IDLE then finish False cnetz
               else case ogk_create new TRANS_VWG telegramm cnetz of
                      Inl f \<Rightarrow> Inl f
                    | Inr (None, cnetz) \<Rightarrow>
                        finish False (emit (Log_Error ''Failed to create transaction'') cnetz)
                    | Inr (Some a, cnetz) \<Rightarrow>
                        (case cnetz_flush_other_transactions a (cnetz\<lparr>state := CNETZ_BUSY\<rparr>) of
                           Inl f \<Rightarrow> Inl f
                         | Inr cnetz \<Rightarrow> finish True cnetz)
             else finish False cnetz)"

definition spk_finish :: "double \<Rightarrow> double \<Rightarrow> rx_telegramm \<Rightarrow> bool \<Rightarrow> cnetz_t \<Rightarrow> cnetz_t" where
  "spk_finish BITS_PER_BLOCK BITS_PER_SUPERFRAME telegramm valid_frame cnetz =
     (if valid_frame
      then cnetz_sync_frame BITS_PER_BLOCK BITS_PER_SUPERFRAME (sync_time telegramm) (- 1) cnetz
      else cnetz)"

definition release_by_mobile :: "nat \<Rightarrow> cnetz_t \<Rightarrow> cnetz_t" where
  "release_by_mobile a cnetz =
     (let cnetz = update_trans a (\<lambda>t. timer_stop ((trans_new_state TRANS_AT t)\<lparr>count := 0\<rparr>)) cnetz
      in if callref cnetz \<noteq> 0 then release_upward CAUSE_TEMPFAIL cnetz else cnetz)"

definition cnetz_receive_telegramm_spk_k ::
  "double \<Rightarrow> double \<Rightarrow> bool \<Rightarrow> bool \<Rightarrow> rx_telegramm \<Rightarrow> cnetz_t \<Rightarrow> cnetz_t" where
  "cnetz_receive_telegramm_spk_k BITS_PER_BLOCK BITS_PER_SUPERFRAME match_fuz match_futln telegramm cnetz =
     (case trans_list cnetz of
        [] \<Rightarrow> cnetz
      | tr # _ \<Rightarrow>
          let finish = spk_finish BITS_PER_BLOCK BITS_PER_SUPERFRAME telegramm;
              a = addr tr;
              matched = (\<lambda>body. if \<not> match_fuz then finish False cnetz
                                 else if \<not> match_futln then finish False cnetz
                                 else finish True body)
          in (case rx_opcode telegramm of
                OPCODE_BEL_K \<Rightarrow>
                  matched (if trans_state tr \<noteq> TRANS_BQ then cnetz else update_trans a timer_stop cnetz)
              | OPCODE_DSQ_K \<Rightarrow>
                  matched (if trans_state tr \<noteq> TRANS_DS then cnetz
                           else update_trans a timer_stop (cnetz\<lparr>scrambler := betriebs_art telegramm\<rparr>))
              | OPCODE_VH_K \<Rightarrow>
                  matched (if trans_state tr \<noteq> TRANS_VHQ then cnetz else update_trans a timer_stop cnetz)
              | OPCODE_RTAQ_K \<Rightarrow>
                  matched (if trans_state tr \<noteq> TRANS_RTA then cnetz else update_trans a timer_start cnetz)
              | OPCODE_AH_K \<Rightarrow>
                  matched (if trans_state tr = TRANS_AHQ \<or> trans_state tr = TRANS_VHQ
                              \<or> trans_state tr = TRANS_AF then cnetz
                           else emit (Call_In_Answer (callref cnetz) (futln_of tr))
                                  (update_trans a
                                     (\<lambda>t. timer_stop ((trans_new_state TRANS_AHQ t)\<lparr>count := 0\<rparr>))
                                     (cnetz\<lparr>scrambler := betriebs_art telegramm\<rparr>)))
              | OPCODE_AT_K \<Rightarrow>
                  matched (if trans_state tr = TRANS_AT \<or> trans_state tr = TRANS_AF then cnetz
                           else release_by_mobile a cnetz)
              | _ \<Rightarrow> finish False cnetz))"

definition cnetz_receive_telegramm_spk_v ::
  "double \<Rightarrow> double \<Rightarrow> bool \<Rightarrow> bool \<Rightarrow> rx_telegramm \<Rightarrow> cnetz_t \<Rightarrow> cnetz_t" where
  "cnetz_receive_telegramm_spk_v BITS_PER_BLOCK BITS_PER_SUPERFRAME match_fuz match_futln telegramm cnetz =
     (case trans_list cnetz of
        [] \<Rightarrow> cnetz
      | tr # _ \<Rightarrow>
          let finish = spk_finish BITS_PER_BLOCK BITS_PER_SUPERFRAME telegramm;
              a = addr tr
          in (case rx_opcode telegramm of
                OPCODE_VH_V \<Rightarrow>
                  if \<not> match_fuz then finish False cnetz
                  else if \<not> match_futln then finish False cnetz
                  else if trans_state tr \<noteq> TRANS_VHQ then finish False cnetz
                  else finish True ((update_trans a timer_start cnetz)\<lparr>scrambler := betriebs_art telegramm\<rparr>)
              | OPCODE_AT_V \<Rightarrow>
                  if \<not> match_fuz then finish False cnetz
                  else if \<not> match_futln then finish False cnetz
                  else if trans_state tr = TRANS_AT \<or> trans_state tr = TRANS_AF then finish True cnetz
                  else finish True (release_by_mobile a (cnetz\<lparr>scrambler := betriebs_art telegramm\<rparr>))
              | _ \<Rightarrow> finish False cnetz))"

section \<open>The start of a block in \<open>fsk_telegramm\<close> (src/cnetz/dsp.c)\<close>

text \<open>
  When the transmit buffer is used up (\<open>pos == 0\<close>) \<open>fsk_telegramm\<close> starts a new block.
  It does three things in this order: it counts down a scheduled mode switch
  (\<open>sched_switch\<close>), it builds the block for the mode it is in, and it advances the slot
  counters (\<open>sched_advance\<close>).  \<open>cnetz_encode_telegramm\<close> is not among the sources: the
  function that stands for it is a parameter, it returns the telegram it has encoded and
  the state it leaves.  \<open>ogk_timeslot_mask\<close> is a member of the static system information.
\<close>

definition sched_switch :: "cnetz_t \<Rightarrow> cnetz_t" where
  "sched_switch cnetz0 =
     (if sched_switch_mode cnetz0 \<noteq> 0 \<and> sched_r_m cnetz0 = 0
      then let cnetz = cnetz0\<lparr>sched_switch_mode := sched_switch_mode cnetz0 - 1\<rparr>
           in if sched_switch_mode cnetz = 0
              then cnetz\<lparr>dsp_mode := sched_dsp_mode cnetz\<rparr>
              else cnetz
      else cnetz0)"

definition sched_advance :: "cnetz_t \<Rightarrow> cnetz_t" where
  "sched_advance cnetz0 =
     (let cnetz = (if dsp_mode cnetz0 = DSP_MODE_SPK_V
                   then cnetz0\<lparr>sched_ts := sched_ts cnetz0 + 8\<rparr>
                   else if sched_r_m cnetz0 = 0 then cnetz0\<lparr>sched_r_m := 1\<rparr>
                   else cnetz0\<lparr>sched_r_m := 0, sched_ts := sched_ts cnetz0 + 1\<rparr>)
      in if sched_ts cnetz = 32 then cnetz\<lparr>sched_ts := 0\<rparr> else cnetz)"

datatype tx_block = Block_Nothing | Block_Plain tx_telegramm | Block_Distributed tx_telegramm

definition fsk_telegramm_start ::
  "u32 \<Rightarrow> (cnetz_t \<Rightarrow> fault + (tx_telegramm \<times> cnetz_t)) \<Rightarrow> cnetz_t \<Rightarrow> fault + (tx_block \<times> cnetz_t)" where
  "fsk_telegramm_start ogk_timeslot_mask cnetz_encode_telegramm cnetz0 =
     (let cnetz = sched_switch cnetz0;
          encoded = (\<lambda>block c.
            case cnetz_encode_telegramm c of
              Inl f \<Rightarrow> Inl f
            | Inr (telegramm, c') \<Rightarrow> Inr (block telegramm, sched_advance c'))
      in case dsp_mode cnetz of
           DSP_MODE_OGK \<Rightarrow>
             if push_bit (nat (sched_ts cnetz)) 1 AND ogk_timeslot_mask \<noteq> 0
             then if sched_r_m cnetz = 0
                  then encoded Block_Plain (cnetz\<lparr>last_tx_timeslot := sched_ts cnetz\<rparr>)
                  else encoded Block_Plain cnetz
             else Inr (Block_Nothing, sched_advance cnetz)
         | DSP_MODE_SPK_K \<Rightarrow> encoded Block_Plain cnetz
         | DSP_MODE_SPK_V \<Rightarrow> encoded Block_Distributed cnetz
         | _ \<Rightarrow> Inr (Block_Nothing, sched_advance cnetz))"


section \<open>Notions used in the statements\<close>

text \<open>The addresses passed to \<open>free\<close>, in the order of the calls.\<close>

definition freed :: "event list \<Rightarrow> nat list" where
  "freed es = concat (map (\<lambda>e. case e of Free_Transaction a \<Rightarrow> [a] | _ \<Rightarrow> []) es)"

text \<open>An environment in which every allocation and every initialisation succeeds.\<close>

definition env_ok :: create_env where
  "env_ok = \<lparr>calloc_cnetz = True, sender_create_rc = None, calloc_tx_buffer = True,
              calloc_speech_buffer = True, fsk_fm_init_rc = None, jitter_create_rc = None,
              init_emphasis_rc = None\<rparr>"

text \<open>
  The transaction of the same subscriber that \<open>create_transaction\<close> finds in the list,
  and the transactions that are left when it is gone.
\<close>

definition dup_of :: "u8 \<Rightarrow> u8 \<Rightarrow> u16 \<Rightarrow> cnetz_t \<Rightarrow> transaction option" where
  "dup_of n f r c = find (same_futln n f r) (trans_list c)"

definition others_of :: "u8 \<Rightarrow> u8 \<Rightarrow> u16 \<Rightarrow> cnetz_t \<Rightarrow> transaction list" where
  "others_of n f r c =
     (case dup_of n f r c of
        None \<Rightarrow> trans_list c
      | Some d \<Rightarrow> filter (\<lambda>t. addr t \<noteq> addr d) (trans_list c))"

text \<open>
  A dial string as the specification reads it: the number that counts (an 11-character
  string that starts with 0160 counts as its last seven characters), decimal digits, and
  the value of a string of decimal digits.
\<close>

definition effective_number :: "string \<Rightarrow> string" where
  "effective_number d = (if length d = 11 \<and> take 4 d = ''0160'' then drop 4 d else d)"

definition decimal_digit :: "char \<Rightarrow> bool" where
  "decimal_digit c \<longleftrightarrow> c \<in> set ''0123456789''"

definition digit_value :: "char \<Rightarrow> nat" where
  "digit_value c = of_char c - 48"

definition decimal :: "string \<Rightarrow> nat" where
  "decimal s = foldl (\<lambda>v c. 10 * v + digit_value c) 0 s"

definition subscriber_busy :: "u8 \<Rightarrow> u8 \<Rightarrow> u16 \<Rightarrow> cnetz_t list \<Rightarrow> bool" where
  "subscriber_busy n f r senders \<longleftrightarrow>
     (\<exists>s \<in> set senders. \<exists>t \<in> set (trans_list s). same_futln n f r t)"

text \<open>
  States used as examples: a channel as \<open>cnetz_create\<close> leaves it, the same channel with
  an attachment and a roaming request pending (\<open>ogk_two\<close>), the channel with three
  transactions pending, the second one of subscriber 2-2-300 (\<open>ogk_three\<close>), and a call
  request of subscriber 2-2-300.
\<close>

definition ogk_idle :: cnetz_t where
  "ogk_idle = cnetz_calloc\<lparr>kanal := 131, state := CNETZ_IDLE, dsp_mode := DSP_MODE_OGK,
                            sched_dsp_mode := DSP_MODE_OGK\<rparr>"

definition ogk_two :: cnetz_t where
  "ogk_two = ogk_idle\<lparr>trans_list := [new_transaction 10 TRANS_EM 2 2 100,
                                      new_transaction 11 TRANS_UM 2 2 200]\<rparr>"

definition ogk_three :: cnetz_t where
  "ogk_three = ogk_idle\<lparr>trans_list := [new_transaction 10 TRANS_EM 2 2 100,
                                        new_transaction 11 TRANS_UM 2 2 300,
                                        new_transaction 13 TRANS_EM 2 2 400]\<rparr>"

definition call_request :: rx_telegramm where
  "call_request = \<lparr>rx_opcode = OPCODE_VWG_R, futln_nationalitaet = 2, futln_heimat_fuvst_nr = 2,
                    futln_rest_nr = 300, wahlziffern = [], betriebs_art = 0, sync_time = Num 0\<rparr>"

section \<open>The base station as a transition system\<close>

text \<open>
  The macros of the headers that are not among the sources, and the time-slot mask of the
  static system information, are collected in one record.
\<close>

record params =
  BITS_PER_BLOCK :: double
  BITS_PER_SUPERFRAME :: double
  N_AFKT :: int
  N_AFV :: int
  dialing_size :: nat
  ogk_timeslot_mask :: u32

text \<open>
  \<open>cnetz_encode_telegramm\<close> is not among the sources.  \<open>cnetz.c\<close> exports four functions
  that hand it the telegram to encode; the model lets it call any one of them, whatever
  the mode.  For \<open>cnetz_transmit_telegramm_spk_k\<close> the choice carries what
  \<open>call_in_setup\<close> would return and the value of the call reference counter.
\<close>

datatype encoder = Enc_Rufblock | Enc_Meldeblock | Enc_SpK_K "cause option" int | Enc_SpK_V

fun encode_with :: "params \<Rightarrow> encoder \<Rightarrow> cnetz_t \<Rightarrow> fault + (tx_telegramm \<times> cnetz_t)" where
  "encode_with P Enc_Rufblock c = cnetz_transmit_telegramm_rufblock c"
| "encode_with P Enc_Meldeblock c = cnetz_transmit_telegramm_meldeblock c"
| "encode_with P (Enc_SpK_K setup_rc new_callref) c =
     (case cnetz_transmit_telegramm_spk_k (N_AFKT P) setup_rc new_callref c of
        Inl f \<Rightarrow> Inl f
      | Inr (t, ref, c') \<Rightarrow> Inr (t, c'))"
| "encode_with P Enc_SpK_V c = cnetz_transmit_telegramm_spk_v (N_AFV P) c"

text \<open>
  What can happen to the base station: a transceiver is created, a transmit buffer runs
  empty and a block starts, a telegram is received, a timer fires, or call control sets up,
  disconnects or releases a call.  Each action carries what the functions outside these
  sources return while it runs.  A timer that fires is no longer running when its handler
  is called.  A call to \<open>cnetz_create\<close> that fails, and an action on a channel that does not
  exist, leave the base station as it is; an abort ends the run.  The destruction of a
  transceiver when the program ends is left out.
\<close>

datatype action =
    Create create_env int int int int int real real bool
  | Block_Start nat encoder
  | Receive_OgK nat bool "nat option" rx_telegramm int
  | Receive_SpK_K nat bool bool rx_telegramm
  | Receive_SpK_V nat bool bool rx_telegramm
  | Timeout nat nat
  | Setup "nat option" int string
  | Disconnect int cause
  | Release int cause

definition at_sender ::
  "nat \<Rightarrow> (cnetz_t \<Rightarrow> fault + cnetz_t) \<Rightarrow> cnetz_t list \<Rightarrow> fault + cnetz_t list" where
  "at_sender i f senders =
     (if i < length senders
      then case f (senders ! i) of Inl x \<Rightarrow> Inl x | Inr c \<Rightarrow> Inr (senders[i := c])
      else Inr senders)"

fun step :: "params \<Rightarrow> action \<Rightarrow> cnetz_t list \<Rightarrow> fault + cnetz_t list" where
  "step P (Create env pe de k au mp cs0 cs1 lb) senders =
     (case snd (cnetz_create env pe de k au mp cs0 cs1 lb) of
        Inl e \<Rightarrow> Inr senders
      | Inr c \<Rightarrow> Inr (senders @ [c]))"
| "step P (Block_Start i enc) senders =
     at_sender i
       (\<lambda>c. case fsk_telegramm_start (ogk_timeslot_mask P) (encode_with P enc) c of
               Inl x \<Rightarrow> Inl x | Inr (b, c') \<Rightarrow> Inr c')
       senders"
| "step P (Receive_OgK i match_fuz new tg block) senders =
     at_sender i
       (cnetz_receive_telegramm_ogk (BITS_PER_BLOCK P) (BITS_PER_SUPERFRAME P) (dialing_size P)
          match_fuz new tg block)
       senders"
| "step P (Receive_SpK_K i match_fuz match_futln tg) senders =
     at_sender i
       (\<lambda>c. Inr (cnetz_receive_telegramm_spk_k (BITS_PER_BLOCK P) (BITS_PER_SUPERFRAME P)
                   match_fuz match_futln tg c))
       senders"
| "step P (Receive_SpK_V i match_fuz match_futln tg) senders =
     at_sender i
       (\<lambda>c. Inr (cnetz_receive_telegramm_spk_v (BITS_PER_BLOCK P) (BITS_PER_SUPERFRAME P)
                   match_fuz match_futln tg c))
       senders"
| "step P (Timeout i a) senders =
     at_sender i
       (\<lambda>c. case find (\<lambda>t. addr t = a \<and> timer_running t) (trans_list c) of
               None \<Rightarrow> Inr c
             | Some tr \<Rightarrow> Inr (transaction_timeout (timer_stop tr) (update_trans a timer_stop c)))
       senders"
| "step P (Setup new cr d) senders =
     (case call_out_setup new cr d senders of Inl x \<Rightarrow> Inl x | Inr (rc, senders') \<Rightarrow> Inr senders')"
| "step P (Disconnect cr cs) senders =
     (case call_out_disconnect cr cs senders of Inl x \<Rightarrow> Inl x | Inr (es, senders') \<Rightarrow> Inr senders')"
| "step P (Release cr cs) senders = call_out_release cr cs senders"

inductive reachable :: "params \<Rightarrow> cnetz_t list \<Rightarrow> bool" for P :: params where
  reach_start: "reachable P []"
| reach_step: "reachable P senders \<Longrightarrow> step P act senders = Inr senders' \<Longrightarrow> reachable P senders'"

text \<open>A run of the base station: the actions of a list, one after the other.\<close>

fun run :: "params \<Rightarrow> action list \<Rightarrow> cnetz_t list \<Rightarrow> fault + cnetz_t list" where
  "run P [] senders = Inr senders"
| "run P (act # acts) senders =
     (case step P act senders of Inl x \<Rightarrow> Inl x | Inr senders' \<Rightarrow> run P acts senders')"

text \<open>
  The scheduler's view of a channel, what a switch to distributed signalling that is
  still to come looks like, and the property of the scheduler that every reachable
  channel has (\<open>slots_ok\<close>): the counters are in range, the modes are set, in distributed
  signalling the slot counter is a multiple of eight in sub-phase R, and a switch to
  distributed signalling is pending only one block ahead, either in sub-phase M of the
  last slot of a sub-frame or in sub-phase R of the first.  Between the countdown and the
  telegram of a block the last case is over (\<open>slots_mid\<close>).
\<close>

definition sched_of :: "cnetz_t \<Rightarrow> dsp_mode \<times> dsp_mode \<times> int \<times> int \<times> int" where
  "sched_of c = (dsp_mode c, sched_dsp_mode c, sched_switch_mode c, sched_r_m c, sched_ts c)"

definition pending_v :: "cnetz_t \<Rightarrow> bool" where
  "pending_v c \<longleftrightarrow> sched_switch_mode c \<noteq> 0 \<and> sched_dsp_mode c = DSP_MODE_SPK_V"

definition slots_ok :: "cnetz_t \<Rightarrow> bool" where
  "slots_ok c \<longleftrightarrow>
     0 \<le> sched_ts c \<and> sched_ts c < 32 \<and> (sched_r_m c = 0 \<or> sched_r_m c = 1)
     \<and> 0 \<le> sched_switch_mode c \<and> sched_switch_mode c \<le> 2
     \<and> dsp_mode c \<noteq> DSP_SCHED_NONE \<and> sched_dsp_mode c \<noteq> DSP_SCHED_NONE
     \<and> (if dsp_mode c = DSP_MODE_SPK_V then sched_ts c mod 8 = 0 \<and> sched_r_m c = 0
         else if pending_v c
           then sched_switch_mode c = 1
                \<and> (if sched_r_m c = 1 then sched_ts c mod 8 = 7 else sched_ts c mod 8 = 0)
           else True)"

definition slots_mid :: "cnetz_t \<Rightarrow> bool" where
  "slots_mid c \<longleftrightarrow>
     slots_ok c \<and> (if pending_v c then sched_r_m c = 1 \<or> dsp_mode c = DSP_MODE_SPK_V else True)"

text \<open>
  How a function other than the countdown and the advance of a block may change the
  scheduler's view: the slot counters stay, the mode stays once it is set, the countdown is
  set to 0, 1 or 2 if at all, and a switch to distributed signalling is pending afterwards
  only if it was before, or if it was armed one block ahead in sub-phase M of the last
  slot of a sub-frame.
\<close>

definition sched_env :: "cnetz_t \<Rightarrow> cnetz_t \<Rightarrow> bool" where
  "sched_env c c' \<longleftrightarrow>
     sched_ts c' = sched_ts c \<and> sched_r_m c' = sched_r_m c
     \<and> (if dsp_mode c = DSP_SCHED_NONE
         then dsp_mode c' = DSP_SCHED_NONE \<or> dsp_mode c' = DSP_MODE_OGK
         else dsp_mode c' = dsp_mode c)
     \<and> (sched_dsp_mode c' = sched_dsp_mode c \<or> sched_dsp_mode c' \<noteq> DSP_SCHED_NONE)
     \<and> (sched_switch_mode c' = sched_switch_mode c
         \<or> (0 \<le> sched_switch_mode c' \<and> sched_switch_mode c' \<le> 2))
     \<and> (if pending_v c'
         then (sched_switch_mode c' = sched_switch_mode c \<and> pending_v c)
              \<or> (sched_ts c AND 7 = 7 \<and> sched_r_m c \<noteq> 0 \<and> sched_switch_mode c' = 1)
         else True)"

text \<open>The same for the channels of the base station, one by one.\<close>

definition senders_env :: "cnetz_t list \<Rightarrow> cnetz_t list \<Rightarrow> bool" where
  "senders_env ss ss' \<longleftrightarrow> length ss' = length ss \<and> (\<forall>j < length ss. sched_env (ss ! j) (ss' ! j))"

text \<open>The channel whose block an action starts, if it starts one.\<close>

fun block_of :: "action \<Rightarrow> nat option" where
  "block_of (Block_Start i enc) = Some i"
| "block_of _ = None"

text \<open>
  A mobile-terminated call as an example.  All time slots carry the organisation channel.
  The base station creates channel 131 (\<open>created\<close>) and call control sets up a call to
  subscriber 2-2-22002; after the first block (\<open>to_ogk_assigned\<close>) the paging block \<open>VAK_R\<close>
  has gone out and the switch to the speech channel is two blocks on sub-phase R away
  (\<open>ogk_assigned\<close>).
\<close>

definition example_params :: params where
  "example_params = \<lparr>BITS_PER_BLOCK = Num 198, BITS_PER_SUPERFRAME = Num 12672, N_AFKT = 6, N_AFV = 4,
                       dialing_size = 17, ogk_timeslot_mask = 0xffffffff\<rparr>"

definition created :: cnetz_t where
  "created = ogk_idle\<lparr>auth := 1, ms_power := 1\<rparr>"

definition to_ogk_assigned :: "action list" where
  "to_ogk_assigned =
     [Create env_ok 0 0 131 1 1 0 0 False, Setup (Some 12) 7 ''2222002'',
      Block_Start 0 Enc_Rufblock]"

definition paged :: transaction where
  "paged = \<lparr>addr = 12, trans_state = TRANS_BQ, futln_nat = 2, futln_fuvst = 2,
             futln_rest = 22002, mo_call = False, mt_call = True, count = 0,
             release_cause = CNETZ_CAUSE_TEILNEHMERBESETZT, dialing = [],
             timer_running = True\<rparr>"

definition ogk_assigned :: cnetz_t where
  "ogk_assigned =
     \<lparr>kanal = 131, loopback = False, callref = 7, state = CNETZ_BUSY,
      dsp_mode = DSP_MODE_OGK, sched_dsp_mode = DSP_MODE_SPK_K,
      sched_switch_mode = 2, sched_r_m = 1, sched_ts = 0,
      last_tx_timeslot = 0, scrambler = 0, auth = 1, ms_power = 1,
      pre_emphasis = 0, de_emphasis = 0, trans_list = [paged], events = []\<rparr>"

text \<open>
  Call control releases the call before the switch (\<open>ogk_cancelled\<close>).
\<close>

definition ogk_cancelled :: cnetz_t where
  "ogk_cancelled =
     ogk_assigned\<lparr>callref := 0, state := CNETZ_IDLE, sched_switch_mode := 0,
                   trans_list := [], events := [Free_Transaction 12]\<rparr>"

text \<open>
  Or the call goes on: three more blocks, and the channel is one block before the
  switch to concentrated signalling (\<open>ogk_switching\<close>).
\<close>

definition to_ogk_switching :: "action list" where
  "to_ogk_switching =
     [Block_Start 0 Enc_Meldeblock, Block_Start 0 Enc_Rufblock, Block_Start 0 Enc_Meldeblock]"

definition ogk_switching :: cnetz_t where
  "ogk_switching = ogk_assigned\<lparr>sched_switch_mode := 1, sched_r_m := 0, sched_ts := 2,
                                  last_tx_timeslot := 1\<rparr>"

text \<open>The channel after the block that switches (\<open>spk_k_first\<close>).\<close>

definition spk_k_first :: cnetz_t where
  "spk_k_first = ogk_switching\<lparr>dsp_mode := DSP_MODE_SPK_K, sched_switch_mode := 0, sched_r_m := 1,
                                trans_list := [paged\<lparr>count := 1\<rparr>]\<rparr>"

text \<open>
  The block that switches, the mobile station answering (\<open>AH_K\<close>), the blocks up to the
  end of the sub-frame, where the switch to distributed signalling is armed, and the
  channel one block before that switch (\<open>spk_k_switching\<close>).
\<close>

definition answer :: rx_telegramm where
  "answer = \<lparr>rx_opcode = OPCODE_AH_K, futln_nationalitaet = 2, futln_heimat_fuvst_nr = 2,
              futln_rest_nr = 22002, wahlziffern = [], betriebs_art = 0, sync_time = Num 0\<rparr>"

definition to_spk_k_switching :: "action list" where
  "to_spk_k_switching =
     Block_Start 0 (Enc_SpK_K None 0) # Receive_SpK_K 0 True True answer
       # replicate 11 (Block_Start 0 (Enc_SpK_K None 0))"

definition spk_k_switching :: cnetz_t where
  "spk_k_switching =
     ogk_assigned\<lparr>dsp_mode := DSP_MODE_SPK_K, sched_dsp_mode := DSP_MODE_SPK_V,
                   sched_switch_mode := 1, sched_r_m := 0, sched_ts := 8, last_tx_timeslot := 1,
                   trans_list := [paged\<lparr>trans_state := TRANS_VHQ\<rparr>],
                   events := [Call_In_Answer 7 (2, 2, 22002), Fsk_Correct_Sync (Num 0)]\<rparr>"

text \<open>The channel after the first block in distributed signalling.\<close>

definition spk_v_second :: cnetz_t where
  "spk_v_second = spk_k_switching\<lparr>dsp_mode := DSP_MODE_SPK_V, sched_switch_mode := 0,
                                    sched_ts := 16\<rparr>"

text \<open>
  The channel one block later, and the telegram that \<open>cnetz_transmit_telegramm_spk_v\<close>
  builds with opcode \<open>oc\<close> for the call.
\<close>

definition spk_v_third :: cnetz_t where
  "spk_v_third = spk_v_second\<lparr>sched_ts := 24\<rparr>"

definition vhq_telegramm :: "opcode \<Rightarrow> tx_telegramm" where
  "vhq_telegramm oc = \<lparr>tx_opcode = Some oc, tx_futln = Some (2, 2, 22002), tx_frequenz_nr = 131,
                        tx_zeitschlitz_nr = 0\<rparr>"

chapter \<open>Properties\<close>

section \<open>POCSAG: codeword integrity\<close>

subsection \<open>Parity is linear and counts all 32 bits\<close>

lemma xor_fold_linear:
  "(a XOR b) XOR drop_bit k (a XOR b) = (a XOR drop_bit k a) XOR (b XOR drop_bit k b)"
  for a b :: u32
  by (simp add: drop_bit_xor ac_simps)

lemma and1_eq: "(w :: u32) AND 1 = (if bit w 0 then 1 else 0)"
  by (simp add: and_one_eq mod_2_eq_odd bit_0)

lemma bit_below_31:
  fixes v :: u32
  assumes "\<not> bit v 31" "bit v m"
  shows "m < 31"
proof -
  from assms(2) have "m < 32" by (auto dest: bit_imp_le_length)
  moreover from assms have "m \<noteq> 31" by auto
  ultimately show ?thesis by simp
qed

lemma bit_double_u32:
  "bit ((v::u32) * 2) m \<longleftrightarrow> m < 32 \<and> m \<noteq> 0 \<and> bit v (m - 1)"
  using bit_double_iff [of v m] by (simp add: mult.commute possible_bit_word)

lemma drop_push_one:
  fixes v :: u32
  assumes "\<not> bit v 31" "0 < k"
  shows "drop_bit k (v * 2) = drop_bit (k - 1) v"
proof (rule bit_word_eqI)
  fix n assume "n < LENGTH(32)"
  have "bit (v * 2) (k + n) = bit v (k + n - 1)"
  proof (cases "bit v (k + n - 1)")
    case True
    with assms bit_below_31 [of v "k + n - 1"] have "k + n < 32" by simp
    with True assms show ?thesis by (simp add: bit_double_u32)
  next
    case False
    with assms show ?thesis by (simp add: bit_double_u32)
  qed
  then show "bit (drop_bit k (v * 2)) n = bit (drop_bit (k - 1) v) n"
    using assms by (simp add: bit_simps)
qed

lemma drop_31_zero:
  fixes v :: u32
  assumes "\<not> bit v 31"
  shows "drop_bit 31 v = 0"
proof (rule bit_word_eqI)
  fix n assume "n < LENGTH(32)"
  show "bit (drop_bit 31 v) n = bit (0::u32) n"
    using assms bit_below_31 [of v "31 + n"] by (auto simp: bit_simps)
qed

lemma double_and_one: "(v::u32) * 2 AND 1 = 0" "1 AND (v::u32) * 2 = 0"
proof -
  show "v * 2 AND 1 = 0"
    by (rule bit_word_eqI) (auto simp add: bit_and_iff bit_1_iff bit_double_u32)
  then show "1 AND v * 2 = 0" by (simp add: and.commute)
qed

lemma pocsag_parity_shift: "\<not> bit v 31 \<Longrightarrow> pocsag_parity (push_bit 1 v) = pocsag_parity v"
  unfolding pocsag_parity_def Let_def
  apply (simp only: drop_bit_xor drop_bit_drop_bit)
  apply (simp add: drop_push_one drop_31_zero bit.conj_xor_distrib2 bit.conj_xor_distrib double_and_one ac_simps
     numeral_2_eq_2[symmetric] numeral_3_eq_3[symmetric])
  done

lemma pocsag_parity_xor:
  "pocsag_parity (a XOR b) = pocsag_parity a XOR pocsag_parity b"
  unfolding pocsag_parity_def Let_def
  by (simp only: xor_fold_linear bit.conj_xor_distrib2)

lemma pocsag_parity_idem: "pocsag_parity (pocsag_parity v) = pocsag_parity v"
proof -
  have "pocsag_parity v = 0 \<or> pocsag_parity v = 1"
    by (simp add: pocsag_parity_def Let_def and1_eq)
  then show ?thesis
    by (elim disjE) (simp_all add: pocsag_parity_def)
qed

lemma pocsag_parity_append:
  assumes "\<not> bit v 31"
  shows "pocsag_parity (push_bit 1 v OR pocsag_parity v) = 0"
proof -
  have "pocsag_parity v = 1 AND pocsag_parity v"
    by (simp add: pocsag_parity_def Let_def and.commute)
  then have "push_bit 1 v AND pocsag_parity v = (v * 2 AND 1) AND pocsag_parity v"
    by (metis and.assoc push_bit_eq_mult power_one_right)
  then have "push_bit 1 v AND pocsag_parity v = 0"
    by (simp only: double_and_one and_zero_eq zero_and_eq)
  then have "push_bit 1 v OR pocsag_parity v = push_bit 1 v XOR pocsag_parity v"
    by (rule disjunctive_xor_eq_or [symmetric])
  then show ?thesis
    by (simp only: pocsag_parity_xor pocsag_parity_shift [OF assms] pocsag_parity_idem xor_self_eq)
qed

lemma bit_pocsag_crc: "bit (pocsag_crc w) n \<Longrightarrow> n < 10"
proof -
  have "(0x3ff :: u32) = mask 10" by (simp add: mask_eq_exp_minus_1)
  then show "bit (pocsag_crc w) n \<Longrightarrow> n < 10"
    by (simp add: pocsag_crc_def bit_and_iff bit_mask_iff)
qed

lemma bit_below_exp:
  fixes w :: u32
  assumes "w < 2 ^ k" "bit w n"
  shows "n < k"
proof -
  from assms(1) have "w AND mask k = w"
    by (rule less_mask_eq)
  with assms(2) have "bit (w AND mask k) n"
    by (simp only:)
  then show ?thesis
    by (simp add: bit_and_iff bit_mask_iff)
qed

lemma codeword_fields:
  fixes W :: u32
  assumes W: "\<And>n. bit W n \<Longrightarrow> n < 21"
  defines "v \<equiv> push_bit 10 W OR pocsag_crc W"
  defines "w \<equiv> push_bit 1 v OR pocsag_parity v"
  shows "drop_bit 11 w = W" and "drop_bit 1 w AND 0x3ff = pocsag_crc W"
    and "pocsag_parity w = 0"
proof -
  have v31: "\<not> bit v 31"
    using W [of 21] bit_pocsag_crc [of W 31] by (auto simp: v_def bit_simps)
  have p: "bit (pocsag_parity v) n \<Longrightarrow> n = 0" for n
    by (auto simp: pocsag_parity_def Let_def bit_simps)
  have m: "(0x3ff :: u32) = mask 10" by (simp add: mask_eq_exp_minus_1)
  show "drop_bit 11 w = W"
  proof (rule bit_word_eqI)
    fix n assume "n < LENGTH(32)"
    then show "bit (drop_bit 11 w) n = bit W n"
      using W [of n] bit_pocsag_crc [of W "10 + n"] p [of "11 + n"]
      by (auto simp: w_def v_def bit_simps bit_double_u32)
  qed
  show "drop_bit 1 w AND 0x3ff = pocsag_crc W"
  proof (rule bit_word_eqI)
    fix n assume "n < LENGTH(32)"
    then show "bit (drop_bit 1 w AND 0x3ff) n = bit (pocsag_crc W) n"
      using bit_pocsag_crc [of W n] p [of "1 + n"]
      unfolding m by (auto simp: w_def v_def bit_simps bit_double_u32)
  qed
  show "pocsag_parity w = 0"
    unfolding w_def using v31 by (rule pocsag_parity_append)
qed

lemma encode_address_payload:
  fixes ric fn :: u32
  assumes "ric < 2 ^ 21" "fn \<le> 3" "bit (push_bit 2 (drop_bit 3 ric) OR fn) n"
  shows "n < 21"
proof -
  from assms(2) have "fn < 2 ^ 2" by (simp add: word_less_nat_alt word_le_nat_alt)
  then have "bit fn n \<Longrightarrow> n < 2" by (rule bit_below_exp)
  moreover have "bit ric (n + 1) \<Longrightarrow> n + 1 < 21" using assms(1) by (rule bit_below_exp)
  ultimately show ?thesis
    using assms(3) by (auto simp: bit_simps)
qed


lemma lt32_cases:
  "i < (32::nat) \<Longrightarrow> i \<in> {0,1,2,3,4,5,6,7,8,9,10,11,12,13,14,15,16,17,18,19,20,21,22,23,24,25,26,27,28,29,30,31}"
  by (simp, arith)

lemma pocsag_parity_single: "i < 32 \<Longrightarrow> pocsag_parity (push_bit i 1) = 1"
  apply (drule lt32_cases)
  apply (simp only: insert_iff empty_iff)
  apply (elim disjE FalseE; simp add: pocsag_parity_def Let_def)
  done

lemma pocsag_parity_flip:
  assumes "i < 32" "pocsag_parity w = 0"
  shows "pocsag_parity (w XOR push_bit i 1) = 1"
  using assms by (simp only: pocsag_parity_xor pocsag_parity_single xor.left_neutral)

lemma encode_address_unfold:
  "encode_address ric fn =
     push_bit 1 (push_bit 10 (push_bit 2 (drop_bit 3 ric) OR fn)
                   OR pocsag_crc (push_bit 2 (drop_bit 3 ric) OR fn))
     OR pocsag_parity (push_bit 10 (push_bit 2 (drop_bit 3 ric) OR fn)
                   OR pocsag_crc (push_bit 2 (drop_bit 3 ric) OR fn))"
  unfolding encode_address_def Let_def by (simp only: push_bit_of_0 or.left_neutral)

text \<open>
  C1.  Every address codeword the encoder builds for a RIC of the 21-bit POCSAG address
  space and one of the four function codes passes the receiver's CRC comparison
  (\<open>pocsag_crc\<close> of the upper 21 bits against the 10-bit CRC field) and its even-parity
  test, so \<open>debug_word\<close> returns 0; and inverting any single one of the 32 bits of that
  codeword makes \<open>debug_word\<close> return \<open>-EINVAL\<close>, i.e. one of the two checks fails.
\<close>

theorem pocsag_address_codeword_integrity:
  fixes ric fn :: u32
  assumes "ric < 2 ^ 21" and "fn \<le> 3" and "i < 32"
  shows "pocsag_crc (drop_bit 11 (encode_address ric fn))
           = drop_bit 1 (encode_address ric fn) AND 0x3ff
       \<and> pocsag_parity (encode_address ric fn) = 0
       \<and> debug_word (encode_address ric fn) slot = Inr ()
       \<and> debug_word (encode_address ric fn XOR push_bit i 1) slot = Inl EINVAL"
proof -
  let ?W = "push_bit 2 (drop_bit 3 ric) OR fn"
  have W: "\<And>n. bit ?W n \<Longrightarrow> n < 21"
    using assms(1,2) by (rule encode_address_payload)
  note f = codeword_fields [of ?W, OF W, folded encode_address_unfold]
  have crc: "pocsag_crc (drop_bit 11 (encode_address ric fn))
               = drop_bit 1 (encode_address ric fn) AND 0x3ff"
    by (simp only: f)
  have par: "pocsag_parity (encode_address ric fn) = 0"
    by (rule f(3))
  have "pocsag_parity (encode_address ric fn XOR push_bit i 1) = 1"
    using assms(3) par by (rule pocsag_parity_flip)
  then have flip: "debug_word (encode_address ric fn XOR push_bit i 1) slot = Inl EINVAL"
    by (simp add: debug_word_def)
  from crc par have "debug_word (encode_address ric fn) slot = Inr ()"
    by (simp add: debug_word_def)
  with crc par flip show ?thesis by simp
qed

theorem pocsag_address_codeword_integrity_witness:
  "(1234 :: u32) < 2 ^ 21 \<and> (1 :: u32) \<le> 3 \<and> (5 :: nat) < 32
   \<and> pocsag_crc (drop_bit 11 (encode_address 1234 1))
           = drop_bit 1 (encode_address 1234 1) AND 0x3ff
   \<and> pocsag_parity (encode_address 1234 1) = 0
   \<and> debug_word (encode_address 1234 1) 2 = Inr ()
   \<and> debug_word (encode_address 1234 1 XOR push_bit 5 1) 2 = Inl EINVAL"
proof -
  have a: "(1234 :: u32) < 2 ^ 21" by simp
  have b: "(1 :: u32) \<le> 3" by simp
  have c: "(5 :: nat) < 32" by simp
  from pocsag_address_codeword_integrity [OF a b c, of 2] a b c show ?thesis
    by (simp only: simp_thms)
qed

section \<open>POCSAG: a batch with a single address codeword\<close>

lemma done_rx_msg_idle: "\<not> rx_msg_valid p \<Longrightarrow> done_rx_msg p = p"
  by (simp add: done_rx_msg_def)

lemma idle_valid: "debug_word CODEWORD_IDLE slot = Inr ()"
  by code_simp

lemma put_idle: "put_codeword fn fa p CODEWORD_IDLE slot subslot = done_rx_msg p"
  by (simp add: put_codeword_def idle_valid) (simp add: CODEWORD_IDLE_def CODEWORD_SYNC_def)

lemma put_idle_quiet:
  "\<not> rx_msg_valid p \<Longrightarrow> put_codeword fn fa p CODEWORD_IDLE slot subslot = p"
  by (simp add: put_idle done_rx_msg_idle)

lemma put_idles_quiet:
  "\<not> rx_msg_valid p \<Longrightarrow>
   put_codewords fn fa p (map (\<lambda>(slot, subslot). (CODEWORD_IDLE, slot, subslot)) idles) = p"
proof (induction idles)
  case Nil
  then show ?case by (simp add: put_codewords_def)
next
  case (Cons a idles)
  then show ?case by (simp add: put_codewords_def put_idle_quiet split: prod.splits)
qed

lemma put_address:
  assumes "debug_word word (sint slot) = Inr ()" "word AND 0x80000000 = 0" "word \<noteq> CODEWORD_IDLE"
    "0 \<le> sint slot" "\<not> rx_msg_valid p"
  shows "put_codeword fn fa p word slot subslot =
           p\<lparr>rx_msg_valid := True, rx_msg_ric := fst (decode_address word slot),
              rx_msg_function := snd (decode_address word slot),
              rx_msg_data_length := 0, rx_msg_bit_index := 0\<rparr>"
  using assms by (simp add: put_codeword_def done_rx_msg_idle split: prod.splits)


lemma put_codewords_Cons:
  "put_codewords fn fa p ((word, slot, subslot) # ws) =
     put_codewords fn fa (put_codeword fn fa p word slot subslot) ws"
  by (simp add: put_codewords_def)

text \<open>
  C9.  The receiver holds no message and has delivered nothing.  It is fed a valid
  address codeword (CRC and parity pass, bit 31 clear, not the idle codeword) at a slot
  of the batch, then an idle codeword, then any number of further idle codewords.  The
  address codeword alone delivers nothing; the first idle codeword delivers the page; at
  the end exactly one page has been received.  Its RIC is the payload bits 13 to 30 of
  the codeword (as bits 3 to 20) plus the slot, its function is bits 11 and 12, and its
  text is empty.
\<close>

theorem pocsag_single_address_batch:
  assumes "debug_word word (sint slot) = Inr ()"
    and "word AND 0x80000000 = 0" and "word \<noteq> CODEWORD_IDLE"
    and "0 \<le> sint slot"
    and "\<not> rx_msg_valid p" and "received p = []"
  shows "received (put_codeword fn fa p word slot subslot) = []
       \<and> received (put_codewords fn fa p [(word, slot, subslot), (CODEWORD_IDLE, s1, b1)])
           = [((drop_bit 10 word AND 0x1ffff8) + ucast slot, drop_bit 11 word AND 0x3, [])]
       \<and> received (put_codewords fn fa p
             ((word, slot, subslot) # (CODEWORD_IDLE, s1, b1)
                # map (\<lambda>(s, b). (CODEWORD_IDLE, s, b)) idles))
           = [((drop_bit 10 word AND 0x1ffff8) + ucast slot, drop_bit 11 word AND 0x3, [])]"
proof -
  let ?a = "put_codeword fn fa p word slot subslot"
  let ?page = "((drop_bit 10 word AND 0x1ffff8) + ucast slot, drop_bit 11 word AND 0x3, [])"
  have a: "?a = p\<lparr>rx_msg_valid := True, rx_msg_ric := fst (decode_address word slot),
              rx_msg_function := snd (decode_address word slot),
              rx_msg_data_length := 0, rx_msg_bit_index := 0\<rparr>"
    using assms(1-5) by (rule put_address)
  have first: "received ?a = []"
    using assms(6) by (simp add: a)
  let ?b = "put_codeword fn fa ?a CODEWORD_IDLE s1 b1"
  have b: "received ?b = [?page] \<and> \<not> rx_msg_valid ?b"
    using assms(6) by (simp add: put_idle a done_rx_msg_def decode_address_def)
  have rest: "put_codewords fn fa ?b (map (\<lambda>(s, b). (CODEWORD_IDLE, s, b)) idles) = ?b"
    using b by (intro put_idles_quiet) simp
  have second: "received (put_codewords fn fa p [(word, slot, subslot), (CODEWORD_IDLE, s1, b1)]) = [?page]"
    using b by (simp add: put_codewords_def)
  have third: "received (put_codewords fn fa p
             ((word, slot, subslot) # (CODEWORD_IDLE, s1, b1)
                # map (\<lambda>(s, b). (CODEWORD_IDLE, s, b)) idles)) = [?page]"
    using b by (simp only: put_codewords_Cons rest)
  from first second third show ?thesis by (intro conjI)
qed

lemma encode_address_1234_1: "encode_address 1234 1 = 0x134D49"
  by code_simp

theorem pocsag_single_address_batch_witness:
  "debug_word (encode_address 1234 1) (sint (2 :: s8)) = Inr ()
   \<and> encode_address 1234 1 AND 0x80000000 = 0 \<and> encode_address 1234 1 \<noteq> CODEWORD_IDLE
   \<and> 0 \<le> sint (2 :: s8) \<and> \<not> rx_msg_valid rx_idle \<and> received rx_idle = []
   \<and> received (put_codeword 0 3 rx_idle (encode_address 1234 1) 2 0) = []
   \<and> received (put_codewords 0 3 rx_idle [(encode_address 1234 1, 2, 0), (CODEWORD_IDLE, 2, 1)])
        = [(1234, 1, [])]
   \<and> received (put_codewords 0 3 rx_idle
          ((encode_address 1234 1, 2, 0) # (CODEWORD_IDLE, 2, 1)
             # map (\<lambda>(s, b). (CODEWORD_IDLE, s, b)) [(3, 0), (3, 1), (4, 0)]))
        = [(1234, 1, [])]"
proof -
  have h1: "debug_word (encode_address 1234 1) (sint (2 :: s8)) = Inr ()"
    by code_simp
  have h2: "encode_address 1234 1 AND 0x80000000 = 0"
    by (simp add: encode_address_1234_1)
  have h3: "encode_address 1234 1 \<noteq> CODEWORD_IDLE"
    by (simp add: encode_address_1234_1 CODEWORD_IDLE_def)
  have h4: "0 \<le> sint (2 :: s8)" by simp
  have h5: "\<not> rx_msg_valid rx_idle" by (simp add: rx_idle_def)
  have h6: "received rx_idle = []" by (simp add: rx_idle_def)
  have ric: "(drop_bit 10 (encode_address 1234 1) AND 0x1ffff8) + ucast (2 :: s8) = (1234 :: u32)"
    by (simp add: encode_address_1234_1)
  have fn: "drop_bit 11 (encode_address 1234 1) AND 0x3 = (1 :: u32)"
    by (simp add: encode_address_1234_1)
  from pocsag_single_address_batch [OF h1 h2 h3 h4 h5 h6, of 0 3 0 2 1 "[(3, 0), (3, 1), (4, 0)]"]
  show ?thesis
    unfolding ric fn using h1 h2 h3 h4 h5 h6 by (simp only: simp_thms)
qed

section \<open>Radiocom 2000: the supervisory digit\<close>

lemma u8_le7_cases:
  fixes w :: u8
  assumes "w \<le> 7"
  shows "w \<in> {0, 1, 2, 3, 4, 5, 6, 7}"
proof -
  from assms have "unat w \<le> 7" by (simp add: word_le_nat_alt)
  then have "unat w \<in> {0, 1, 2, 3, 4, 5, 6, 7}" by (simp, arith)
  then have "word_of_nat (unat w) \<in> (word_of_nat ` {0, 1, 2, 3, 4, 5, 6, 7} :: u8 set)"
    by (rule imageI)
  then show ?thesis by simp
qed

lemma u16_nibble_cases:
  fixes w :: u16
  shows "w AND 0xf \<in> {0, 1, 2, 3, 4, 5, 6, 7, 8, 9, 10, 11, 12, 13, 14, 15}"
proof -
  have "w AND 0xf \<le> 0xf" by (rule word_and_le1)
  then have "unat (w AND 0xf) \<le> 15" by (simp add: word_le_nat_alt)
  then have "unat (w AND 0xf) \<in> {0, 1, 2, 3, 4, 5, 6, 7, 8, 9, 10, 11, 12, 13, 14, 15}"
    by (simp, arith)
  then have "word_of_nat (unat (w AND 0xf))
      \<in> (word_of_nat ` {0, 1, 2, 3, 4, 5, 6, 7, 8, 9, 10, 11, 12, 13, 14, 15} :: u16 set)"
    by (rule imageI)
  then show ?thesis by simp
qed

lemma super_decode_encode:
  "nconv \<le> 7 \<Longrightarrow>
   super_decode True (r2000_encode_super nconv relais) = (nconv, ucast (relais AND 0xf))"
  apply (drule u8_le7_cases)
  apply (insert u16_nibble_cases [of relais])
  apply (simp only: insert_iff empty_iff)
  apply (elim disjE FalseE; simp add: super_decode_def r2000_encode_super_def Let_def)
  done

lemma super_decode_loopback:
  "super_decode True super = super_decode False (super XOR 0x7f)"
  by (simp add: super_decode_def)

lemma bit_below_exp_len:
  fixes w :: "'a::len word"
  assumes "w < 2 ^ k" "bit w n"
  shows "n < k"
proof -
  from assms(1) have "w AND mask k = w"
    by (rule less_mask_eq)
  with assms(2) have "bit (w AND mask k) n"
    by (simp only:)
  then show ?thesis
    by (simp add: bit_and_iff bit_mask_iff)
qed

lemma super_encode_decode:
  fixes d :: u8
  assumes "d \<le> 0x7f"
  shows "r2000_encode_super (fst (super_decode False d)) (ucast (snd (super_decode False d)))
           XOR 0x7f = d"
proof -
  from assms have "d < 2 ^ 7" by (simp add: word_less_nat_alt word_le_nat_alt)
  then have b7: "\<not> bit d 7" using bit_below_exp_len [of d 7 7] by auto
  show ?thesis
  proof (rule bit_word_eqI)
    fix n assume "n < LENGTH(8)"
    then have "n \<in> {0, 1, 2, 3, 4, 5, 6, 7}" by (simp, arith)
    then show "bit (r2000_encode_super (fst (super_decode False d))
                     (ucast (snd (super_decode False d))) XOR 0x7f) n = bit d n"
      using b7
      apply (simp only: insert_iff empty_iff)
      apply (elim disjE FalseE;
             simp add: super_decode_def r2000_encode_super_def Let_def bit_simps)
      done
  qed
qed

text \<open>
  C10.  For \<open>nconv\<close> in 0..7 and any relais number, decoding the digit that
  \<open>r2000_encode_super\<close> returns, with the inversion by \<open>0x7f\<close> undone (as the receiver does
  in loopback, or undone by hand), gives back \<open>nconv\<close> and the four lowest bits of the
  relais number; a receiver that is active and configured with the same values accepts
  the digit.  In the other direction, encoding what the decoder reads from any seven-bit
  digit \<open>d\<close> gives \<open>d\<close> again: the two bit permutations are inverse to each other.
\<close>

theorem r2000_super_roundtrip:
  assumes "nconv \<le> 7" and "d \<le> 0x7f"
  shows "super_decode True (r2000_encode_super nconv relais) = (nconv, ucast (relais AND 0xf))
       \<and> super_decode False (r2000_encode_super nconv relais XOR 0x7f)
           = (nconv, ucast (relais AND 0xf))
       \<and> r2000_receive_super False True nconv relais (r2000_encode_super nconv relais XOR 0x7f)
           = Super_Unmute_And_Restart_Timer
       \<and> r2000_encode_super (fst (super_decode False d)) (ucast (snd (super_decode False d)))
           XOR 0x7f = d"
proof -
  have a: "super_decode True (r2000_encode_super nconv relais) = (nconv, ucast (relais AND 0xf))"
    using assms(1) by (rule super_decode_encode)
  then have b: "super_decode False (r2000_encode_super nconv relais XOR 0x7f)
                  = (nconv, ucast (relais AND 0xf))"
    by (simp only: super_decode_loopback)
  then have c: "r2000_receive_super False True nconv relais
                  (r2000_encode_super nconv relais XOR 0x7f) = Super_Unmute_And_Restart_Timer"
    by (simp add: r2000_receive_super_def)
  from a b c super_encode_decode [OF assms(2)] show ?thesis by (intro conjI)
qed

theorem r2000_super_roundtrip_witness:
  "(5 :: u8) \<le> 7 \<and> (0x2a :: u8) \<le> 0x7f
   \<and> super_decode True (r2000_encode_super 5 0x123) = (5, 3)
   \<and> super_decode False (r2000_encode_super 5 0x123 XOR 0x7f) = (5, 3)
   \<and> r2000_receive_super False True 5 0x123 (r2000_encode_super 5 0x123 XOR 0x7f)
       = Super_Unmute_And_Restart_Timer
   \<and> r2000_encode_super (fst (super_decode False 0x2a)) (ucast (snd (super_decode False 0x2a)))
       XOR 0x7f = 0x2a"
proof -
  have h1: "(5 :: u8) \<le> 7" by simp
  have h2: "(0x2a :: u8) \<le> 0x7f" by simp
  have r: "ucast ((0x123 :: u16) AND 0xf) = (3 :: u8)" by simp
  from r2000_super_roundtrip [OF h1 h2, of "0x123"] h1 h2 show ?thesis
    unfolding r by (simp only: simp_thms)
qed

section \<open>Doubles: rounding, representable numbers and \<open>fmod\<close>\<close>

lemma powi_nat: "0 \<le> e \<Longrightarrow> (2 :: real) powi e = of_int (2 ^ nat e)"
  by (simp add: power_int_def)

lemma powi_pos [simp]: "0 < (2 :: real) powi e"
  by (simp add: power_int_def)

lemma powi_less: "(2 :: real) powi a < 2 powi b \<longleftrightarrow> a < b"
proof
  assume "a < b" then show "(2 :: real) powi a < 2 powi b"
    by (rule power_int_strict_increasing) simp
next
  assume l: "(2 :: real) powi a < 2 powi b"
  show "a < b"
  proof (rule ccontr)
    assume "\<not> a < b"
    then have "b \<le> a" by simp
    then have "(2 :: real) powi b \<le> 2 powi a" by (rule power_int_increasing) simp
    with l show False by simp
  qed
qed

lemma powi_le: "(2 :: real) powi a \<le> 2 powi b \<longleftrightarrow> a \<le> b"
  using powi_less [of b a] by (auto simp add: not_less [symmetric])

lemma powi_add: "(2 :: real) powi (a + b) = 2 powi a * 2 powi b"
  by (rule power_int_add) simp

lemma powi_diff: "(2 :: real) powi (a - b) = 2 powi a / 2 powi b"
  by (rule power_int_diff) simp

lemma binade_bounds:
  assumes "x \<noteq> 0"
  shows "2 powi binade x \<le> \<bar>x\<bar>" and "\<bar>x\<bar> < 2 powi (binade x + 1)"
proof -
  have "2 powi binade x \<le> \<bar>x\<bar> \<and> \<bar>x\<bar> < 2 powi (binade x + 1)"
  proof (cases "1 \<le> \<bar>x\<bar>")
    case True
    define n where "n = \<lfloor>\<bar>x\<bar>\<rfloor>"
    from True have n: "0 < n" by (simp add: n_def)
    then have k: "1 \<le> bitlen n" by (auto simp add: bitlen_alt_def)
    from bitlen_bounds [OF n] have b: "2 ^ nat (bitlen n - 1) \<le> n" "n < 2 ^ nat (bitlen n)"
      by simp_all
    have e: "binade x = bitlen n - 1" using True by (simp add: binade_def n_def)
    have "(2 :: real) powi (bitlen n - 1) = of_int (2 ^ nat (bitlen n - 1))"
      using k by (intro powi_nat) simp
    also have "\<dots> \<le> of_int n" using b(1) by (simp only: of_int_le_iff)
    also have "\<dots> \<le> \<bar>x\<bar>" by (simp add: n_def)
    finally have lo: "2 powi (bitlen n - 1) \<le> \<bar>x\<bar>" .
    from b(2) have n1: "n + 1 \<le> 2 ^ nat (bitlen n)" by simp
    have "\<bar>x\<bar> < of_int (n + 1)" by (simp add: n_def)
    also have "\<dots> \<le> of_int (2 ^ nat (bitlen n))" using n1 by (simp only: of_int_le_iff)
    also have "\<dots> = (2 :: real) powi (bitlen n)"
      using k by (intro powi_nat [symmetric]) simp
    finally have "\<bar>x\<bar> < 2 powi (bitlen n)" .
    with lo e show ?thesis by simp
  next
    case False
    define t where "t = 1 / \<bar>x\<bar>"
    define n where "n = \<lceil>t\<rceil>"
    from False assms have t: "1 < t" by (simp add: t_def)
    then have n: "0 < n - 1" by (simp add: n_def less_ceiling_iff)
    define k where "k = bitlen (n - 1)"
    from n have k: "1 \<le> k" by (auto simp add: k_def bitlen_alt_def)
    from bitlen_bounds [OF n] have b: "2 ^ nat (k - 1) \<le> n - 1" "n - 1 < 2 ^ nat k"
      by (simp_all add: k_def)
    have e: "binade x = - k" using False by (simp add: binade_def n_def t_def k_def)
    have p: "(2 :: real) powi k = of_int (2 ^ nat k)" "(2 :: real) powi (k - 1) = of_int (2 ^ nat (k - 1))"
      using k by (simp_all add: powi_nat)
    from b(2) have nk: "n \<le> 2 ^ nat k" by simp
    have "t \<le> of_int n" by (simp add: n_def)
    also have "\<dots> \<le> of_int (2 ^ nat k)" using nk by (simp only: of_int_le_iff)
    also have "\<dots> = 2 powi k" by (simp only: p)
    finally have up: "t \<le> 2 powi k" .
    have "(2 :: real) powi (k - 1) = of_int (2 ^ nat (k - 1))" by (simp only: p)
    also have "\<dots> \<le> of_int (n - 1)" using b(1) by (simp only: of_int_le_iff)
    also have "\<dots> < t" unfolding n_def by linarith
    finally have lo: "2 powi (k - 1) < t" .
    from assms have x: "0 < \<bar>x\<bar>" by simp
    have "2 powi (- k) \<le> \<bar>x\<bar>"
    proof -
      from up have "1 / \<bar>x\<bar> \<le> 2 powi k" by (simp add: t_def)
      with x have "1 \<le> 2 powi k * \<bar>x\<bar>" by (simp add: field_simps)
      then have "1 / 2 powi k \<le> \<bar>x\<bar>" by (simp add: field_simps)
      then show ?thesis by (simp add: power_int_minus_divide)
    qed
    moreover have "\<bar>x\<bar> < 2 powi (- k + 1)"
    proof -
      from lo have "2 powi (k - 1) < 1 / \<bar>x\<bar>" by (simp add: t_def)
      with x have "2 powi (k - 1) * \<bar>x\<bar> < 1" by (simp add: field_simps)
      then have "\<bar>x\<bar> < 1 / 2 powi (k - 1)" by (simp add: field_simps)
      also have "\<dots> = 2 powi (- (k - 1))" by (simp only: power_int_minus_divide)
      also have "- (k - 1) = - k + 1" by simp
      finally show ?thesis .
    qed
    ultimately show ?thesis using e by simp
  qed
  then show "2 powi binade x \<le> \<bar>x\<bar>" and "\<bar>x\<bar> < 2 powi (binade x + 1)" by simp_all
qed

lemma binade_eqI:
  assumes "2 powi e \<le> \<bar>x\<bar>" "\<bar>x\<bar> < 2 powi (e + 1)"
  shows "binade x = e"
proof -
  from assms(1) powi_pos [of e] have "0 < \<bar>x\<bar>" by linarith
  then have "x \<noteq> 0" by simp
  note b = binade_bounds [OF this]
  from b(1) assms(2) have "2 powi binade x < (2 :: real) powi (e + 1)" by simp
  then have "binade x < e + 1" by (simp only: powi_less)
  moreover from assms(1) b(2) have "2 powi e < (2 :: real) powi (binade x + 1)" by simp
  then have "e < binade x + 1" by (simp only: powi_less)
  ultimately show ?thesis by simp
qed

lemma nearest_even_of_int [simp]: "nearest_even (of_int n) = n"
  by (simp add: nearest_even_def)

lemma nearest_even_close: "\<bar>of_int (nearest_even q) - q\<bar> \<le> 1 / 2"
  unfolding nearest_even_def Let_def by (auto; linarith)

lemma nearest_even_bound:
  assumes "\<bar>q\<bar> \<le> of_int N"
  shows "\<bar>nearest_even q\<bar> \<le> N"
proof -
  from nearest_even_close [of q] assms
  have "\<bar>of_int (nearest_even q) :: real\<bar> \<le> of_int N + 1 / 2" by linarith
  then have "\<bar>of_int (nearest_even q) :: real\<bar> < of_int (N + 1)" by simp
  then have "(of_int \<bar>nearest_even q\<bar> :: real) < of_int (N + 1)" by simp
  then have "\<bar>nearest_even q\<bar> < N + 1" by (simp only: of_int_less_iff)
  then show ?thesis by simp
qed

lemma powi_int: "0 \<le> e \<Longrightarrow> of_int m * (2 :: real) powi e = of_int (m * 2 ^ nat e)"
  by (simp add: power_int_def)

lemma abs_mult_powi: "\<bar>of_int m * (2 :: real) powi e\<bar> = of_int \<bar>m\<bar> * 2 powi e"
  by (simp add: abs_mult)

lemma repr_round:
  assumes "repr x"
  shows "round_double x = Num x"
proof (cases "x = 0")
  case True
  then show ?thesis by (simp add: round_double_def)
next
  case False
  from assms obtain m e where x: "x = of_int m * 2 powi e" and m: "\<bar>m\<bar> < 2 ^ 53"
    and e: "- 1074 \<le> e" "e \<le> 971"
    by (auto simp add: repr_def)
  define E where "E = max (binade x) (- 1022)"
  have u: "ulp x = 2 powi (E - 52)" by (simp add: ulp_def E_def)
  from m have "(of_int \<bar>m\<bar> :: real) < of_int (2 ^ 53)" by (simp only: of_int_less_iff)
  then have m': "(of_int \<bar>m\<bar> :: real) < 2 powi 53" by simp
  have ax: "\<bar>x\<bar> = of_int \<bar>m\<bar> * 2 powi e" by (simp add: x abs_mult)
  have lt: "\<bar>x\<bar> < 2 powi (53 + e)"
  proof -
    have "\<bar>x\<bar> < 2 powi 53 * 2 powi e"
      unfolding ax using m' by (intro mult_strict_right_mono) simp_all
    then show ?thesis by (simp only: powi_add)
  qed
  from binade_bounds(1) [OF False] lt have "2 powi binade x < (2 :: real) powi (53 + e)" by simp
  then have "binade x < 53 + e" by (simp only: powi_less)
  with e have d: "0 \<le> e - (E - 52)" by (simp add: E_def)
  have "x / ulp x = x / 2 powi (E - 52)" by (simp only: u)
  also have "\<dots> = of_int m * 2 powi e / 2 powi (E - 52)" by (simp only: x)
  also have "\<dots> = of_int m * 2 powi (e - (E - 52))"
    by (simp only: powi_diff [of e] times_divide_eq_right)
  also have "\<dots> = of_int (m * 2 ^ nat (e - (E - 52)))"
    using d by (rule powi_int)
  finally have q: "x / ulp x = of_int (m * 2 ^ nat (e - (E - 52)))" .
  have y: "of_int (nearest_even (x / ulp x)) * ulp x = x"
    unfolding q nearest_even_of_int unfolding q [symmetric] by (simp add: u)
  have "\<bar>x\<bar> < 2 powi 1024"
  proof -
    from e have "53 + e \<le> 1024" by simp
    then have "(2 :: real) powi (53 + e) \<le> 2 powi 1024" by (simp only: powi_le)
    with lt show ?thesis by simp
  qed
  with False y show ?thesis
    by (simp add: round_double_def Let_def del: power_int_numeral)
qed

lemma nearest_even_ge: "of_int N \<le> q \<Longrightarrow> N \<le> nearest_even q"
proof -
  assume "of_int N \<le> q"
  then have "N \<le> \<lfloor>q\<rfloor>" by (simp add: le_floor_iff)
  then show ?thesis by (auto simp add: nearest_even_def Let_def)
qed

lemma nearest_even_le: "q \<le> of_int N \<Longrightarrow> nearest_even q \<le> N"
proof -
  assume a: "q \<le> of_int N"
  show ?thesis
  proof (cases "q = of_int N")
    case True
    then show ?thesis by simp
  next
    case False
    with a have "q < of_int N" by simp
    then have "\<lfloor>q\<rfloor> < N" by (simp add: floor_less_iff)
    then show ?thesis by (auto simp add: nearest_even_def Let_def)
  qed
qed

lemma round_repr:
  assumes "round_double x = Num y"
  shows "repr y"
proof (cases "x = 0")
  case True
  with assms have "y = of_int 0 * 2 powi 0" by (simp add: round_double_def)
  then show ?thesis unfolding repr_def by (intro exI [of _ 0] conjI) simp_all
next
  case False
  define E where "E = max (binade x) (- 1022)"
  define n where "n = nearest_even (x / ulp x)"
  have u: "ulp x = 2 powi (E - 52)" by (simp add: ulp_def E_def)
  from assms False have y: "y = of_int n * 2 powi (E - 52)" and fin: "\<bar>y\<bar> < 2 powi 1024"
    by (auto simp add: round_double_def Let_def n_def u split: if_splits simp del: power_int_numeral)
  have E: "- 1022 \<le> E" "binade x \<le> E" by (simp_all add: E_def)
  have "\<bar>x\<bar> < 2 powi (E + 1)"
  proof -
    from E(2) have "(2 :: real) powi (binade x + 1) \<le> 2 powi (E + 1)" by (simp only: powi_le)
    with binade_bounds(2) [OF False] show ?thesis by simp
  qed
  then have "\<bar>x\<bar> / 2 powi (E - 52) < 2 powi (E + 1) / 2 powi (E - 52)"
    by (intro divide_strict_right_mono) simp_all
  also have "\<dots> = 2 powi (E + 1 - (E - 52))" by (simp only: powi_diff)
  also have "E + 1 - (E - 52) = 53" by simp
  finally have "\<bar>x / ulp x\<bar> < 2 powi 53" by (simp add: u)
  then have "\<bar>x / ulp x\<bar> \<le> of_int (2 ^ 53)" by simp
  then have nb: "\<bar>n\<bar> \<le> 2 ^ 53" unfolding n_def by (rule nearest_even_bound)
  have ay: "\<bar>y\<bar> = of_int \<bar>n\<bar> * 2 powi (E - 52)" by (simp add: y abs_mult)
  show ?thesis
  proof (cases "\<bar>n\<bar> = 2 ^ 53")
    case True
    have "\<bar>y\<bar> = 2 powi 53 * 2 powi (E - 52)" by (simp add: ay True)
    also have "\<dots> = 2 powi (53 + (E - 52))" by (simp only: powi_add)
    finally have "(2 :: real) powi (53 + (E - 52)) < 2 powi 1024" using fin by simp
    then have "53 + (E - 52) < 1024" by (simp only: powi_less)
    then have e: "E - 51 \<le> 971" by simp
    from True have "n = 2 ^ 53 \<or> n = - (2 ^ 53)" by linarith
    then have "n = 2 * (n div 2)" "\<bar>n div 2\<bar> < 2 ^ 53" by auto
    then have "y = of_int (n div 2) * (2 * 2 powi (E - 52))"
      unfolding y by (metis (no_types) mult.assoc mult.commute of_int_mult of_int_numeral)
    also have "2 * (2 :: real) powi (E - 52) = 2 powi (E - 51)"
      using powi_add [of 1 "E - 52"] by simp
    finally have "y = of_int (n div 2) * 2 powi (E - 51)" .
    with \<open>\<bar>n div 2\<bar> < 2 ^ 53\<close> e E(1) show ?thesis
      unfolding repr_def by (intro exI [of _ "n div 2"] exI [of _ "E - 51"]) simp
  next
    case False
    with nb have n: "\<bar>n\<bar> < 2 ^ 53" by simp
    have "E \<le> 1023"
    proof (rule ccontr)
      assume "\<not> E \<le> 1023"
      then have big: "1024 \<le> E" by simp
      then have bx: "binade x = E" by (simp add: E_def)
      from binade_bounds(1) [OF \<open>x \<noteq> 0\<close>] have "2 powi E \<le> \<bar>x\<bar>" by (simp add: bx)
      then have "2 powi E / 2 powi (E - 52) \<le> \<bar>x\<bar> / 2 powi (E - 52)"
        by (intro divide_right_mono) simp_all
      moreover have "(2 :: real) powi E / 2 powi (E - 52) = 2 powi (E - (E - 52))"
        by (simp only: powi_diff)
      moreover have "E - (E - 52) = 52" by simp
      ultimately have q: "of_int (2 ^ 52) \<le> \<bar>x / ulp x\<bar>" by (simp add: u)
      have "2 ^ 52 \<le> \<bar>n\<bar>"
      proof (cases "0 \<le> x")
        case True
        with q have "of_int (2 ^ 52) \<le> x / ulp x" by (simp add: u)
        then have "2 ^ 52 \<le> n" unfolding n_def by (rule nearest_even_ge)
        then show ?thesis by simp
      next
        case False
        with q have "x / ulp x \<le> of_int (- (2 ^ 52))" by (simp add: u abs_if field_simps split: if_splits)
        then have "n \<le> - (2 ^ 52)" unfolding n_def by (rule nearest_even_le)
        then show ?thesis by simp
      qed
      then have "(of_int (2 ^ 52) :: real) \<le> of_int \<bar>n\<bar>" by (simp only: of_int_le_iff)
      then have "2 powi 52 * 2 powi (E - 52) \<le> \<bar>y\<bar>"
        unfolding ay by (intro mult_right_mono) simp_all
      then have "(2 :: real) powi (52 + (E - 52)) \<le> \<bar>y\<bar>" by (simp only: powi_add)
      with fin have "(2 :: real) powi (52 + (E - 52)) < 2 powi 1024" by simp
      then have "52 + (E - 52) < 1024" by (simp only: powi_less)
      with big show False by simp
    qed
    with n E(1) y show ?thesis
      unfolding repr_def by (intro exI [of _ n] exI [of _ "E - 52"]) simp
  qed
qed

lemma is_double_repr: "is_double x \<longleftrightarrow> repr x"
  unfolding is_double_def using repr_round round_repr by blast

lemma fmod_nonneg:
  assumes "0 < m" "0 \<le> x"
  shows "0 \<le> fmod x m" "fmod x m < m" "fmod x m \<le> x"
proof -
  define k where "k = \<lfloor>x / m\<rfloor>"
  from assms have f: "fmod x m = x - of_int k * m"
    by (simp add: fmod_def trunc_def k_def)
  have "of_int k \<le> x / m" "x / m < of_int k + 1" by (simp_all add: k_def)
  with assms(1) have "of_int k * m \<le> x" "x < (of_int k + 1) * m"
    by (simp_all add: field_simps)
  then show "0 \<le> fmod x m" "fmod x m < m" unfolding f by (simp_all add: algebra_simps)
  from assms have "0 \<le> k" by (simp add: k_def)
  with assms(1) have "0 \<le> of_int k * m" by simp
  then show "fmod x m \<le> x" unfolding f by simp
qed

lemma fmod_nonpos:
  assumes "0 < m" "x \<le> 0"
  shows "fmod x m \<le> 0" "- m < fmod x m" "x \<le> fmod x m"
proof -
  define k where "k = \<lceil>x / m\<rceil>"
  have t: "trunc (x / m) = k"
  proof (cases "x = 0")
    case True
    then show ?thesis by (simp add: trunc_def k_def)
  next
    case False
    with assms have "x / m < 0" by (simp add: field_simps)
    then show ?thesis by (simp add: trunc_def k_def)
  qed
  then have f: "fmod x m = x - of_int k * m" by (simp add: fmod_def)
  have "x / m \<le> of_int k" "of_int k - 1 < x / m" by (simp_all add: k_def) linarith
  with assms(1) have "x \<le> of_int k * m" "(of_int k - 1) * m < x"
    by (simp_all add: field_simps)
  then show "fmod x m \<le> 0" "- m < fmod x m" unfolding f by (simp_all add: algebra_simps)
  from assms have "x / m \<le> 0" by (simp add: field_simps)
  then have "k \<le> 0" by (simp add: k_def ceiling_le_iff)
  then have "(of_int k :: real) \<le> 0" by simp
  with assms(1) have "of_int k * m \<le> 0" by (simp add: mult_le_0_iff)
  then show "x \<le> fmod x m" unfolding f by simp
qed

lemma repr_sub_mult:
  assumes "repr a" "repr b"
    and "\<bar>a - of_int k * b\<bar> \<le> \<bar>a\<bar>" "\<bar>a - of_int k * b\<bar> \<le> \<bar>b\<bar>"
  shows "repr (a - of_int k * b)"
proof -
  from assms(1) obtain ma ea where a: "a = of_int ma * 2 powi ea" "\<bar>ma\<bar> < 2 ^ 53"
    "- 1074 \<le> ea" "ea \<le> 971"
    by (auto simp add: repr_def)
  from assms(2) obtain mb eb where b: "b = of_int mb * 2 powi eb" "\<bar>mb\<bar> < 2 ^ 53"
    "- 1074 \<le> eb" "eb \<le> 971"
    by (auto simp add: repr_def)
  have small: "\<bar>n\<bar> \<le> \<bar>m\<bar>" if "\<bar>of_int n * (2 :: real) powi e\<bar> \<le> \<bar>of_int m * 2 powi e\<bar>" for n m e
  proof -
    from that have "of_int \<bar>n\<bar> * (2 :: real) powi e \<le> of_int \<bar>m\<bar> * 2 powi e"
      by (simp add: abs_mult)
    then have "(of_int \<bar>n\<bar> :: real) \<le> of_int \<bar>m\<bar>" by simp
    then show ?thesis by (simp only: of_int_le_iff)
  qed
  show ?thesis
  proof (cases "ea \<le> eb")
    case True
    define n where "n = ma - k * (mb * 2 ^ nat (eb - ea))"
    have "b = of_int mb * 2 powi ((eb - ea) + ea)" by (simp add: b(1))
    also have "\<dots> = of_int mb * 2 powi (eb - ea) * 2 powi ea"
      by (simp only: powi_add mult.assoc)
    also have "of_int mb * (2 :: real) powi (eb - ea) = of_int (mb * 2 ^ nat (eb - ea))"
      using True by (intro powi_int) simp
    finally have b': "b = of_int (mb * 2 ^ nat (eb - ea)) * 2 powi ea" .
    have r: "a - of_int k * b = of_int n * 2 powi ea"
      unfolding n_def by (subst b', subst a(1)) (simp add: algebra_simps)
    from assms(3) have "\<bar>of_int n * (2 :: real) powi ea\<bar> \<le> \<bar>of_int ma * 2 powi ea\<bar>"
      unfolding r by (simp only: a(1))
    then have "\<bar>n\<bar> \<le> \<bar>ma\<bar>" by (rule small)
    with a(2) have "\<bar>n\<bar> < 2 ^ 53" by simp
    with r a(3,4) show ?thesis
      unfolding repr_def by (intro exI [of _ n] exI [of _ ea]) simp
  next
    case False
    define n where "n = ma * 2 ^ nat (ea - eb) - k * mb"
    have "a = of_int ma * 2 powi ((ea - eb) + eb)" by (simp add: a(1))
    also have "\<dots> = of_int ma * 2 powi (ea - eb) * 2 powi eb"
      by (simp only: powi_add mult.assoc)
    also have "of_int ma * (2 :: real) powi (ea - eb) = of_int (ma * 2 ^ nat (ea - eb))"
      using False by (intro powi_int) simp
    finally have a': "a = of_int (ma * 2 ^ nat (ea - eb)) * 2 powi eb" .
    have r: "a - of_int k * b = of_int n * 2 powi eb"
      unfolding n_def by (subst a', subst b(1)) (simp add: algebra_simps)
    from assms(4) have "\<bar>of_int n * (2 :: real) powi eb\<bar> \<le> \<bar>of_int mb * 2 powi eb\<bar>"
      unfolding r by (simp only: b(1))
    then have "\<bar>n\<bar> \<le> \<bar>mb\<bar>" by (rule small)
    with b(2) have "\<bar>n\<bar> < 2 ^ 53" by simp
    with r b(3,4) show ?thesis
      unfolding repr_def by (intro exI [of _ n] exI [of _ eb]) simp
  qed
qed

lemma d_add_Num:
  "d_add u v = Num x \<Longrightarrow> \<exists>a b. u = Num a \<and> v = Num b \<and> round_double (a + b) = Num x"
  by (cases u; cases v) (auto split: if_splits)

lemma repr_half:
  assumes "repr m" "2 powi (- 1021) \<le> \<bar>m\<bar>"
  shows "repr (m / 2)"
proof -
  from assms(1) obtain n e where m: "m = of_int n * 2 powi e" "\<bar>n\<bar> < 2 ^ 53"
    "- 1074 \<le> e" "e \<le> 971"
    by (auto simp add: repr_def)
  have "- 1074 < e"
  proof (rule ccontr)
    assume "\<not> - 1074 < e"
    with m(3) have e: "e = - 1074" by simp
    from m(2) have "(of_int \<bar>n\<bar> :: real) < of_int (2 ^ 53)" by (simp only: of_int_less_iff)
    then have "(of_int \<bar>n\<bar> :: real) < 2 powi 53" by simp
    then have "of_int \<bar>n\<bar> * 2 powi e < 2 powi 53 * (2 :: real) powi e"
      by (intro mult_strict_right_mono) simp_all
    also have "\<dots> = 2 powi (53 + e)" by (simp only: powi_add)
    also have "53 + e = - 1021" by (simp add: e)
    finally have "\<bar>m\<bar> < 2 powi (- 1021)" by (simp add: m(1) abs_mult)
    with assms(2) show False by simp
  qed
  have "(2 :: real) powi e = 2 powi (1 + (e - 1))" by simp
  also have "\<dots> = 2 * 2 powi (e - 1)" by (simp only: powi_add) simp
  finally have "m / 2 = of_int n * 2 powi (e - 1)" by (simp add: m(1))
  with m(2,4) \<open>- 1074 < e\<close> show ?thesis
    unfolding repr_def by (intro exI [of _ n] exI [of _ "e - 1"]) simp
qed

lemma repr_neg: "repr x \<Longrightarrow> repr (- x)"
  unfolding repr_def
  by (elim exE conjE, rule_tac x = "- m" in exI, rule_tac x = e in exI) simp

lemma repr_quarter: "repr (1 / 4)" "repr (- (1 / 4))" "repr (1 / 2)" "repr (- (1 / 2))"
proof -
  have "(1 / 4 :: real) = of_int 1 * 2 powi (- 2)" by (simp add: power_int_minus_divide)
  then show q: "repr (1 / 4)"
    unfolding repr_def by (intro exI [of _ 1] exI [of _ "- 2"]) simp
  then show "repr (- (1 / 4))" by (rule repr_neg)
  have "(1 / 2 :: real) = of_int 1 * 2 powi (- 1)" by (simp add: power_int_minus_divide)
  then show h: "repr (1 / 2)"
    unfolding repr_def by (intro exI [of _ 1] exI [of _ "- 1"]) simp
  then show "repr (- (1 / 2))" by (rule repr_neg)
qed

lemma fold_offset:
  assumes m: "is_double m" "1 \<le> m" and x: "is_double x"
  defines "r \<equiv> fmod x m"
  defines "off \<equiv> (if m / 2 < r then r - m else r)"
  shows "(let offset = d_fmod (Num x) (Num m)
          in if d_less (d_half (Num m)) offset then d_sub offset (Num m) else offset) = Num off"
    and "is_double off"
    and "\<exists>k. off = x - of_int k * m"
    and "- m < off" and "off \<le> m / 2" and "0 \<le> x \<Longrightarrow> - (m / 2) < off"
    and "x \<le> 0 \<Longrightarrow> off \<le> 0"
proof -
  from m x have rm: "repr m" and rx: "repr x" and pos: "0 < m"
    by (simp_all add: is_double_repr)
  have rdef: "r = x - of_int (trunc (x / m)) * m" by (simp add: r_def fmod_def)
  have bounds: "\<bar>r\<bar> \<le> \<bar>x\<bar>" "\<bar>r\<bar> < m"
  proof -
    show "\<bar>r\<bar> \<le> \<bar>x\<bar>"
      using fmod_nonneg [OF pos, of x] fmod_nonpos [OF pos, of x]
      by (cases "0 \<le> x") (simp_all add: r_def)
    show "\<bar>r\<bar> < m"
      using fmod_nonneg [OF pos, of x] fmod_nonpos [OF pos, of x]
      by (cases "0 \<le> x") (simp_all add: r_def abs_if)
  qed
  have rr: "repr r"
    unfolding rdef using rx rm bounds pos by (intro repr_sub_mult) (simp_all add: rdef)
  from m have "2 powi (- 1021) \<le> \<bar>m\<bar>"
  proof -
    have "(2 :: real) powi (- 1021) \<le> 2 powi 0" by (simp only: powi_le)
    with m(2) show ?thesis by simp
  qed
  with rm have "repr (m / 2)" by (rule repr_half)
  then have half: "d_half (Num m) = Num (m / 2)" by (simp add: repr_round)
  have sub: "d_sub (Num r) (Num m) = Num (r - m)" if "m / 2 < r"
  proof -
    from that bounds pos have "\<bar>r - of_int 1 * m\<bar> \<le> \<bar>r\<bar>" "\<bar>r - of_int 1 * m\<bar> \<le> \<bar>m\<bar>"
      by (simp_all add: abs_if)
    with rr rm have "repr (r - of_int 1 * m)" by (rule repr_sub_mult)
    then have "round_double (r - m) = Num (r - m)" using repr_round by simp
    then show ?thesis by (simp add: d_sub_def)
  qed
  show "(let offset = d_fmod (Num x) (Num m)
          in if d_less (d_half (Num m)) offset then d_sub offset (Num m) else offset) = Num off"
    using pos half sub by (simp add: Let_def off_def r_def)
  show "is_double off"
  proof (cases "m / 2 < r")
    case True
    from sub [OF True] have "round_double (r - m) = Num (r - m)" by (simp add: d_sub_def)
    with True show ?thesis by (simp add: off_def is_double_def)
  next
    case False
    with rr show ?thesis by (simp add: off_def is_double_repr)
  qed
  show "\<exists>k. off = x - of_int k * m"
  proof (cases "m / 2 < r")
    case True
    then have "off = x - of_int (trunc (x / m) + 1) * m"
      by (simp add: off_def rdef algebra_simps)
    then show ?thesis ..
  next
    case False
    then have "off = x - of_int (trunc (x / m)) * m" by (simp add: off_def rdef)
    then show ?thesis ..
  qed
  from bounds pos show "- m < off" "off \<le> m / 2"
    by (simp_all add: off_def abs_if split: if_splits)
  show "- (m / 2) < off" if "0 \<le> x"
    using fmod_nonneg [OF pos that] pos by (auto simp add: off_def r_def)
  show "off \<le> 0" if "x \<le> 0"
    using fmod_nonpos [OF pos that] pos by (auto simp add: off_def r_def)
qed

lemma correction_of_offset:
  assumes "is_double off"
  shows "(if d_less (Num off) (Num (- 0.5)) \<or> d_less (Num 0.5) (Num off) then Num off else d_half (Num off))
           = (if \<bar>off\<bar> > 1 / 2 then Num off else round_double (off / 2))"
    and "\<bar>off\<bar> = 1 / 2 \<Longrightarrow> round_double (off / 2) = Num (off / 2)"
    and "2 powi (- 1021) \<le> \<bar>off\<bar> \<Longrightarrow> round_double (off / 2) = Num (off / 2)"
proof -
  show "(if d_less (Num off) (Num (- 0.5)) \<or> d_less (Num 0.5) (Num off) then Num off else d_half (Num off))
           = (if \<bar>off\<bar> > 1 / 2 then Num off else round_double (off / 2))"
    by (auto simp add: abs_if)
  show "round_double (off / 2) = Num (off / 2)" if "\<bar>off\<bar> = 1 / 2"
  proof -
    from that consider "off = 1 / 2" | "off = - (1 / 2)" by (auto simp add: abs_if split: if_splits)
    then have "repr (off / 2)"
    proof cases
      case 1
      then have "off / 2 = 1 / 4" by simp
      then show ?thesis by (simp only: repr_quarter)
    next
      case 2
      then have "off / 2 = - (1 / 4)" by simp
      then show ?thesis by (simp only: repr_quarter)
    qed
    then show ?thesis by (rule repr_round)
  qed
  show "round_double (off / 2) = Num (off / 2)" if "2 powi (- 1021) \<le> \<bar>off\<bar>"
    using assms that by (intro repr_round repr_half) (simp_all add: is_double_repr)
qed

lemma is_doubleI:
  "x = of_int m * 2 powi e \<Longrightarrow> \<bar>m\<bar> < 2 ^ 53 \<Longrightarrow> - 1074 \<le> e \<Longrightarrow> e \<le> 971 \<Longrightarrow> is_double x"
  unfolding is_double_repr repr_def by blast

lemma is_double_int: "\<bar>n\<bar> < 2 ^ 53 \<Longrightarrow> is_double (of_int n)"
  by (rule is_doubleI [of _ n 0]) simp_all

lemma round_double_int: "\<bar>n\<bar> < 2 ^ 53 \<Longrightarrow> round_double (of_int n) = Num (of_int n)"
  using is_double_int [of n] by (simp add: is_double_def)

lemma nearest_even_near:
  assumes "\<bar>q - of_int n\<bar> < 1 / 2"
  shows "nearest_even q = n"
proof -
  from assms have "\<lfloor>q\<rfloor> = n \<and> q - of_int n < 1 / 2 \<or> \<lfloor>q\<rfloor> = n - 1 \<and> q - of_int (n - 1) > 1 / 2"
    by (cases "of_int n \<le> q") (auto simp add: floor_eq_iff abs_if split: if_splits)
  then show ?thesis
    by (auto simp add: nearest_even_def Let_def)
qed

lemma round_double_near:
  assumes "2 powi e \<le> \<bar>x\<bar>" "\<bar>x\<bar> < 2 powi (e + 1)" "- 1022 \<le> e"
    and "\<bar>x / 2 powi (e - 52) - of_int n\<bar> < 1 / 2"
    and "\<bar>of_int n * 2 powi (e - 52)\<bar> < (2 :: real) powi 1024"
  shows "round_double x = Num (of_int n * 2 powi (e - 52))"
proof -
  from assms(1,2) have b: "binade x = e" by (rule binade_eqI)
  with assms(3) have u: "ulp x = 2 powi (e - 52)" by (simp add: ulp_def max_def)
  from assms(4) have n: "nearest_even (x / 2 powi (e - 52)) = n" by (rule nearest_even_near)
  from assms(1) powi_pos [of e] have "0 < \<bar>x\<bar>" by linarith
  then have "x \<noteq> 0" by simp
  with assms(5) show ?thesis
    by (simp add: round_double_def Let_def u n del: power_int_numeral)
qed

section \<open>C-Netz: transactions and call set-up\<close>

lemma freed_append [simp]: "freed (xs @ ys) = freed xs @ freed ys"
  by (simp add: freed_def)

lemma freed_simps [simp]:
  "freed [] = []"
  "freed (Free_Transaction a # es) = a # freed es"
  "freed (Log_Notice m # es) = freed es"
  "freed (Log_Error m # es) = freed es"
  "freed (Fsk_Correct_Sync x # es) = freed es"
  "freed (Call_In_Release cr cs # es) = freed es"
  by (simp_all add: freed_def)

lemma unlink_head: "unlink (addr t) (t # ts) = Some ts"
  by simp

lemma flush_before_old:
  assumes "a \<notin> addr ` set old" "addr new = a" "trans_list c = old @ [new]"
  shows "\<exists>c'. flush_before a c = Inr c' \<and> trans_list c' = [new]
           \<and> freed (events c') = freed (events c) @ map addr old
           \<and> c'\<lparr>trans_list := [], events := []\<rparr> = c\<lparr>trans_list := [], events := []\<rparr>"
  using assms
proof (induction old arbitrary: c)
  case Nil
  then show ?case by (simp add: flush_before.simps)
next
  case (Cons t old)
  let ?c1 = "emit (Free_Transaction (addr t))
               ((emit (Log_Notice ''Kicking other pending transaction'') c)\<lparr>trans_list := old @ [new]\<rparr>)"
  have d: "destroy_transaction (addr t) (emit (Log_Notice ''Kicking other pending transaction'') c) = Inr ?c1"
    using Cons.prems by (simp add: destroy_transaction_def emit_def)
  have "\<exists>c'. flush_before a ?c1 = Inr c' \<and> trans_list c' = [new]
           \<and> freed (events c') = freed (events ?c1) @ map addr old
           \<and> c'\<lparr>trans_list := [], events := []\<rparr> = ?c1\<lparr>trans_list := [], events := []\<rparr>"
    using Cons.prems by (intro Cons.IH) (simp_all add: emit_def)
  then obtain c' where c': "flush_before a ?c1 = Inr c'" "trans_list c' = [new]"
      "freed (events c') = freed (events ?c1) @ map addr old"
      "c'\<lparr>trans_list := [], events := []\<rparr> = ?c1\<lparr>trans_list := [], events := []\<rparr>"
    by blast
  have "flush_before a c = flush_before a ?c1"
    using Cons.prems d by (subst flush_before.simps) (auto simp add: )
  with c' show ?case by (simp add: emit_def)
qed

lemma has_next_last:
  assumes "a \<notin> addr ` set old" "addr new = a"
  shows "\<not> has_next a (old @ [new])"
  using assms by (induction old) (simp_all add: has_next_def)

lemma flush_new:
  assumes "a \<notin> addr ` set old" "addr new = a" "trans_list c = old @ [new]"
  shows "\<exists>c'. cnetz_flush_other_transactions a c = Inr c' \<and> trans_list c' = [new]
           \<and> freed (events c') = freed (events c) @ map addr old
           \<and> c'\<lparr>trans_list := [], events := []\<rparr> = c\<lparr>trans_list := [], events := []\<rparr>"
  using assms has_next_last [OF assms(1,2)] flush_before_old [OF assms]
  by (simp add: cnetz_flush_other_transactions_def)

lemma unlink_distinct:
  assumes "d \<in> set ts" "distinct (map addr ts)"
  shows "unlink (addr d) ts = Some (filter (\<lambda>t. addr t \<noteq> addr d) ts)"
  using assms
proof (induction ts)
  case Nil
  then show ?case by simp
next
  case (Cons t ts)
  show ?case
  proof (cases "addr t = addr d")
    case True
    with Cons.prems have "\<forall>x\<in>set ts. addr x \<noteq> addr d"
      by (auto simp: image_iff)
    then have "filter (\<lambda>t. addr t \<noteq> addr d) ts = ts"
      by (simp add: filter_id_conv)
    with True show ?thesis by simp
  next
    case False
    with Cons.prems have "d \<in> set ts" by auto
    with Cons.IH Cons.prems False show ?thesis by simp
  qed
qed

lemma create_transaction_ok:
  assumes "distinct (map addr (trans_list c))"
  shows "create_transaction (Some a) st n f r c =
           Inr (Some a,
                c\<lparr>trans_list := others_of n f r c @ [new_transaction a st n f r],
                  events := events c @ (case dup_of n f r c of None \<Rightarrow> []
                                         | Some d \<Rightarrow> [Free_Transaction (addr d)])\<rparr>)"
proof (cases "dup_of n f r c")
  case None
  then show ?thesis
    by (simp add: create_transaction_def others_of_def dup_of_def)
next
  case (Some d)
  then have "d \<in> set (trans_list c)"
    by (auto simp: dup_of_def find_Some_iff)
  then have "unlink (addr d) (trans_list c) = Some (filter (\<lambda>t. addr t \<noteq> addr d) (trans_list c))"
    using assms by (rule unlink_distinct)
  with Some show ?thesis
    by (simp add: create_transaction_def others_of_def dup_of_def [symmetric]
          destroy_transaction_def emit_def)
qed

lemma addr_new_transaction [simp]: "addr (new_transaction a st n f r) = a"
  by (simp add: new_transaction_def Let_def trans_new_state_def)

lemma create_then_flush:
  assumes "distinct (map addr (trans_list c))" "a \<notin> addr ` set (others_of n f r c)"
  shows "\<exists>c1 c2. create_transaction (Some a) st n f r c = Inr (Some a, c1)
           \<and> cnetz_flush_other_transactions a (c1\<lparr>state := CNETZ_BUSY\<rparr>) = Inr c2
           \<and> trans_list c2 = [new_transaction a st n f r]
           \<and> freed (events c2) = freed (events c)
                 @ (case dup_of n f r c of None \<Rightarrow> [] | Some d \<Rightarrow> [addr d])
                 @ map addr (others_of n f r c)
           \<and> c2\<lparr>trans_list := [], events := []\<rparr> = c\<lparr>state := CNETZ_BUSY, trans_list := [], events := []\<rparr>"
proof -
  let ?c1 = "c\<lparr>trans_list := others_of n f r c @ [new_transaction a st n f r],
                  events := events c @ (case dup_of n f r c of None \<Rightarrow> []
                                         | Some d \<Rightarrow> [Free_Transaction (addr d)])\<rparr>"
  have 1: "create_transaction (Some a) st n f r c = Inr (Some a, ?c1)"
    using assms(1) by (rule create_transaction_ok)
  have "\<exists>c'. cnetz_flush_other_transactions a (?c1\<lparr>state := CNETZ_BUSY\<rparr>) = Inr c'
           \<and> trans_list c' = [new_transaction a st n f r]
           \<and> freed (events c') = freed (events (?c1\<lparr>state := CNETZ_BUSY\<rparr>)) @ map addr (others_of n f r c)
           \<and> c'\<lparr>trans_list := [], events := []\<rparr> = (?c1\<lparr>state := CNETZ_BUSY\<rparr>)\<lparr>trans_list := [], events := []\<rparr>"
    using assms(2) by (intro flush_new) simp_all
  then obtain c2 where c2: "cnetz_flush_other_transactions a (?c1\<lparr>state := CNETZ_BUSY\<rparr>) = Inr c2"
     "trans_list c2 = [new_transaction a st n f r]"
     "freed (events c2) = freed (events (?c1\<lparr>state := CNETZ_BUSY\<rparr>)) @ map addr (others_of n f r c)"
     "c2\<lparr>trans_list := [], events := []\<rparr> = (?c1\<lparr>state := CNETZ_BUSY\<rparr>)\<lparr>trans_list := [], events := []\<rparr>"
    by blast
  have "freed (events c2) = freed (events c)
                 @ (case dup_of n f r c of None \<Rightarrow> [] | Some d \<Rightarrow> [addr d])
                 @ map addr (others_of n f r c)"
    using c2(3) by (simp split: option.splits)
  with 1 c2 show ?thesis by simp
qed

lemma char_of_digits:
  "char_of (48 :: nat) = CHR ''0''" "char_of (49 :: nat) = CHR ''1''"
  "char_of (50 :: nat) = CHR ''2''" "char_of (51 :: nat) = CHR ''3''"
  "char_of (52 :: nat) = CHR ''4''" "char_of (53 :: nat) = CHR ''5''"
  "char_of (54 :: nat) = CHR ''6''" "char_of (55 :: nat) = CHR ''7''"
  "char_of (56 :: nat) = CHR ''8''" "char_of (57 :: nat) = CHR ''9''"
  by code_simp+

lemma is_digit_iff: "is_digit c \<longleftrightarrow> decimal_digit c"
proof
  assume "is_digit c"
  then have "(of_char c :: nat) \<in> {48, 49, 50, 51, 52, 53, 54, 55, 56, 57}"
    by (simp add: is_digit_def) arith
  then have "(char_of (of_char c :: nat) :: char)
      \<in> char_of ` {48 :: nat, 49, 50, 51, 52, 53, 54, 55, 56, 57}"
    by (rule imageI)
  then show "decimal_digit c"
    by (simp add: decimal_digit_def char_of_digits)
next
  assume "decimal_digit c"
  then have "c \<in> set ''0123456789''"
    by (simp only: decimal_digit_def)
  then show "is_digit c"
    by (simp only: list.set insert_iff empty_iff) (elim disjE FalseE; simp add: is_digit_def)
qed

lemma digit_not_space: "is_digit c \<Longrightarrow> \<not> isspace c \<and> c \<noteq> CHR ''-'' \<and> c \<noteq> CHR ''+''"
  by (auto simp add: is_digit_def isspace_def)

lemma atoi_digits_decimal:
  "list_all is_digit s \<Longrightarrow> atoi_digits acc s = foldl (\<lambda>v c. 10 * v + int (digit_value c)) acc s"
proof (induction s arbitrary: acc)
  case Nil
  then show ?case by simp
next
  case (Cons c s)
  then have "is_digit c" by simp
  then have "(of_char c :: int) - of_char CHR ''0'' = int (digit_value c)"
    by (simp add: is_digit_def digit_value_def of_char_def)
  with Cons show ?case by (simp add: mult.commute)
qed

lemma foldl_int_decimal:
  "foldl (\<lambda>v c. 10 * v + int (digit_value c)) (int a) s = int (foldl (\<lambda>v c. 10 * v + digit_value c) a s)"
proof (induction s arbitrary: a)
  case Nil
  then show ?case by simp
next
  case (Cons c s)
  have "10 * int a + int (digit_value c) = int (10 * a + digit_value c)" by simp
  then show ?case
    using Cons.IH [of "10 * a + digit_value c"] by (simp only: foldl_Cons)
qed

lemma atoi_decimal:
  assumes "list_all is_digit s" "s \<noteq> []"
  shows "atoi s = int (decimal s)"
proof -
  from assms obtain c cs where s: "s = c # cs" by (cases s) auto
  with assms have "is_digit c" by simp
  then have "dropWhile isspace s = s" "c \<noteq> CHR ''-''" "c \<noteq> CHR ''+''"
    using digit_not_space [of c] by (simp_all add: s)
  then have "atoi s = atoi_digits 0 s"
    by (simp add: atoi_def s)
  also have "\<dots> = int (decimal s)"
    using atoi_digits_decimal [OF assms(1), of 0] foldl_int_decimal [of 0 s]
    by (simp add: decimal_def)
  finally show ?thesis .
qed

lemma list_all_index7:
  assumes "length e = 7"
  shows "list_all (\<lambda>i. P (e ! i)) [0..<7] = list_all P e"
proof -
  have "list_all P e \<longleftrightarrow> (\<forall>i<length e. P (e ! i))"
    by (simp add: list_all_iff all_set_conv_all_nth)
  also have "\<dots> \<longleftrightarrow> list_all (\<lambda>i. P (e ! i)) [0..<7]"
    using assms by (auto simp add: list_all_iff)
  finally show ?thesis by simp
qed

lemma is_digit_fun: "is_digit = decimal_digit"
  by (rule ext) (rule is_digit_iff)

lemma digit_u8:
  assumes "decimal_digit c"
  shows "(of_char c - 48 :: u8) = word_of_nat (digit_value c)"
proof -
  from assms have "is_digit c" by (simp add: is_digit_iff)
  then have "48 \<le> (of_char c :: nat)" by (simp add: is_digit_def)
  then have "(word_of_nat (of_char c - 48) :: u8) = word_of_nat (of_char c) - 48"
    by (simp add: of_nat_diff)
  moreover have "(word_of_nat (of_char c :: nat) :: u8) = of_char c"
    by (simp add: of_char_def)
  ultimately show ?thesis by (simp add: digit_value_def)
qed

lemma first_idle_Some:
  "first_idle ss = Some i \<Longrightarrow> i < length ss \<and> state (ss ! i) = CNETZ_IDLE"
  by (induction ss arbitrary: i) (auto split: if_splits option.splits)

lemma subscriber_busy_iff:
  "list_ex (\<lambda>sender. list_ex (same_futln n f r) (trans_list sender)) senders
     \<longleftrightarrow> subscriber_busy n f r senders"
  by (simp add: subscriber_busy_def list_ex_iff)

lemma not_busy_no_dup:
  assumes "\<not> subscriber_busy n f r senders" "i < length senders"
  shows "dup_of n f r ((senders ! i)\<lparr>callref := cr\<rparr>) = None"
    and "others_of n f r ((senders ! i)\<lparr>callref := cr\<rparr>) = trans_list (senders ! i)"
proof -
  from assms have "\<forall>t\<in>set (trans_list (senders ! i)). \<not> same_futln n f r t"
    by (auto simp: subscriber_busy_def)
  then show "dup_of n f r ((senders ! i)\<lparr>callref := cr\<rparr>) = None"
    by (simp add: dup_of_def find_None_iff)
  then show "others_of n f r ((senders ! i)\<lparr>callref := cr\<rparr>) = trans_list (senders ! i)"
    by (simp add: others_of_def)
qed

lemma call_out_setup_reject:
  assumes "length (effective_number (c_str d)) \<noteq> 7
         \<or> \<not> list_all decimal_digit (effective_number (c_str d))
         \<or> decimal (drop 2 (effective_number (c_str d))) > 65535"
  shows "call_out_setup new cr d senders = Inr (Some CAUSE_INVALNUMBER, senders)"
proof -
  let ?e = "effective_number (c_str d)"
  show ?thesis
  proof (cases "length ?e = 7 \<and> list_all decimal_digit ?e")
    case False
    then show ?thesis
      by (auto simp add: call_out_setup_def Let_def effective_number_def [symmetric]
            list_all_index7 is_digit_fun)
  next
    case True
    then have "list_all is_digit (drop 2 ?e)" "drop 2 ?e \<noteq> []"
      by (auto simp add: is_digit_fun list_all_iff dest: in_set_dropD)
    then have "atoi (drop 2 ?e) = int (decimal (drop 2 ?e))"
      by (rule atoi_decimal)
    with True assms show ?thesis
      by (simp add: call_out_setup_def Let_def effective_number_def [symmetric]
            list_all_index7 is_digit_fun)
  qed
qed

lemma call_out_setup_accept:
  fixes d :: string
  defines "e \<equiv> effective_number (c_str d)"
  defines "n \<equiv> word_of_nat (digit_value (e ! 0))"
      and "f \<equiv> word_of_nat (digit_value (e ! 1))"
      and "r \<equiv> word_of_nat (decimal (drop 2 e))"
  assumes ok: "length e = 7" "list_all decimal_digit e" "decimal (drop 2 e) \<le> 65535"
      and free: "\<not> subscriber_busy n f r senders" "first_idle senders = Some i"
      and heap: "distinct (map addr (trans_list (senders ! i)))"
                "a \<notin> addr ` set (trans_list (senders ! i))"
  shows "\<exists>c'. call_out_setup (Some a) cr d senders = Inr (None, senders[i := c'])
           \<and> trans_list c' = [new_transaction a TRANS_VAK n f r]
           \<and> freed (events c') = freed (events (senders ! i)) @ map addr (trans_list (senders ! i))
           \<and> callref c' = cr \<and> state c' = CNETZ_BUSY"
proof -
  have i: "i < length senders"
    using free(2) by (simp add: first_idle_Some)
  from ok have "list_all is_digit (drop 2 e)" "drop 2 e \<noteq> []"
    by (auto simp add: is_digit_fun list_all_iff dest: in_set_dropD)
  then have atoi: "atoi (drop 2 e) = int (decimal (drop 2 e))"
    by (rule atoi_decimal)
  from ok have "decimal_digit (e ! 0)" "decimal_digit (e ! 1)"
    by (simp_all add: list_all_iff)
  then have nf: "(of_char (e ! 0) - 48 :: u8) = n"
                "(of_char (e ! Suc 0) - 48 :: u8) = f"
    by (simp_all add: digit_u8 n_def f_def)
  have r: "(word_of_int (atoi (drop 2 e)) :: u16) = r"
    by (simp add: atoi r_def)
  let ?c = "(senders ! i)\<lparr>callref := cr\<rparr>"
  have dup: "dup_of n f r ?c = None" "others_of n f r ?c = trans_list (senders ! i)"
    using free(1) i by (rule not_busy_no_dup)+
  have "\<exists>c1 c2. create_transaction (Some a) TRANS_VAK n f r ?c = Inr (Some a, c1)
           \<and> cnetz_flush_other_transactions a (c1\<lparr>state := CNETZ_BUSY\<rparr>) = Inr c2
           \<and> trans_list c2 = [new_transaction a TRANS_VAK n f r]
           \<and> freed (events c2) = freed (events ?c)
                 @ (case dup_of n f r ?c of None \<Rightarrow> [] | Some d \<Rightarrow> [addr d])
                 @ map addr (others_of n f r ?c)
           \<and> c2\<lparr>trans_list := [], events := []\<rparr> = ?c\<lparr>state := CNETZ_BUSY, trans_list := [], events := []\<rparr>"
    using heap by (intro create_then_flush) (simp_all add: dup)
  then obtain c1 c2 where c:
      "create_transaction (Some a) TRANS_VAK n f r ?c = Inr (Some a, c1)"
      "cnetz_flush_other_transactions a (c1\<lparr>state := CNETZ_BUSY\<rparr>) = Inr c2"
      "trans_list c2 = [new_transaction a TRANS_VAK n f r]"
      "freed (events c2) = freed (events (senders ! i)) @ map addr (trans_list (senders ! i))"
      "c2\<lparr>trans_list := [], events := []\<rparr> = ?c\<lparr>state := CNETZ_BUSY, trans_list := [], events := []\<rparr>"
    by (auto simp add: dup)
  from c(5) have "callref (c2\<lparr>trans_list := [], events := []\<rparr>) = cr"
      "state (c2\<lparr>trans_list := [], events := []\<rparr>) = CNETZ_BUSY"
    by simp_all
  then have c2: "callref c2 = cr" "state c2 = CNETZ_BUSY" by simp_all
  have "call_out_setup (Some a) cr d senders = Inr (None, senders[i := c2])"
    using ok free atoi c(1,2)
    by (simp add: call_out_setup_def Let_def effective_number_def [symmetric] e_def [symmetric]
          list_all_index7 is_digit_fun nf r_def [symmetric] subscriber_busy_iff)
  with c(3,4) c2 show ?thesis by blast
qed

lemma sync_frame_fields [simp]:
  "trans_list (cnetz_sync_frame B S sync block c) = trans_list c"
  "state (cnetz_sync_frame B S sync block c) = state c"
  "freed (events (cnetz_sync_frame B S sync block c)) = freed (events c)"
  by (simp_all add: cnetz_sync_frame_def emit_def Let_def)

lemma receive_call_request:
  assumes op: "rx_opcode tg = OPCODE_VWG_R \<or> rx_opcode tg = OPCODE_SRG_R"
      and idle: "state c = CNETZ_IDLE" "\<not> loopback c"
      and heap: "distinct (map addr (trans_list c))"
                "a \<notin> addr ` set (others_of (futln_nationalitaet tg) (futln_heimat_fuvst_nr tg)
                                     (futln_rest_nr tg) c)"
  shows "\<exists>c'. cnetz_receive_telegramm_ogk B S dsz True (Some a) tg block c = Inr c'
           \<and> trans_list c' = [new_transaction a TRANS_VWG (futln_nationalitaet tg)
                                  (futln_heimat_fuvst_nr tg) (futln_rest_nr tg)]
           \<and> freed (events c') = freed (events c)
                 @ (case dup_of (futln_nationalitaet tg) (futln_heimat_fuvst_nr tg)
                           (futln_rest_nr tg) c of None \<Rightarrow> [] | Some d \<Rightarrow> [addr d])
                 @ map addr (others_of (futln_nationalitaet tg) (futln_heimat_fuvst_nr tg)
                              (futln_rest_nr tg) c)
           \<and> state c' = CNETZ_BUSY"
proof -
  let ?n = "futln_nationalitaet tg" and ?f = "futln_heimat_fuvst_nr tg" and ?r = "futln_rest_nr tg"
  from create_then_flush [OF heap, of TRANS_VWG]
  obtain c1 c2 where c:
      "create_transaction (Some a) TRANS_VWG ?n ?f ?r c = Inr (Some a, c1)"
      "cnetz_flush_other_transactions a (c1\<lparr>state := CNETZ_BUSY\<rparr>) = Inr c2"
      "trans_list c2 = [new_transaction a TRANS_VWG ?n ?f ?r]"
      "freed (events c2) = freed (events c)
                 @ (case dup_of ?n ?f ?r c of None \<Rightarrow> [] | Some d \<Rightarrow> [addr d])
                 @ map addr (others_of ?n ?f ?r c)"
      "c2\<lparr>trans_list := [], events := []\<rparr> = c\<lparr>state := CNETZ_BUSY, trans_list := [], events := []\<rparr>"
    by blast
  from c(5) have "loopback (c2\<lparr>trans_list := [], events := []\<rparr>) = loopback c"
      "state (c2\<lparr>trans_list := [], events := []\<rparr>) = CNETZ_BUSY"
    by simp_all
  then have c2: "\<not> loopback c2" "state c2 = CNETZ_BUSY" using idle by simp_all
  have "cnetz_receive_telegramm_ogk B S dsz True (Some a) tg block c
          = Inr (cnetz_sync_frame B S (sync_time tg) block c2)"
    using op idle c(1,2) c2
    by (auto simp add: cnetz_receive_telegramm_ogk_def ogk_create_def ogk_finish_def Let_def)
  with c(3,4) c2 show ?thesis by simp
qed

text \<open>
  C3, as far as it holds.  A call request is accepted on a channel: either the telegram VWG or SRG arrives
  on an idle channel and matches the base station, or the network sets up a call to a
  valid number that has no transaction anywhere and the first idle channel is this one.
  The addresses of the transactions in the list are distinct and \<open>calloc\<close> returns an
  address that no transaction left in the list has.  Then the function returns with the
  channel busy, the list of the channel holds exactly the new transaction, and the
  transactions that were in the list have been freed: a pending transaction of the same
  subscriber first (by \<open>create_transaction\<close>), then all the others in the order of the
  list, oldest first (by \<open>cnetz_flush_other_transactions\<close>).
\<close>

theorem new_call_flushes_other_transactions:
  fixes d :: string
  defines "e \<equiv> effective_number (c_str d)"
  assumes "rx_opcode tg = OPCODE_VWG_R \<or> rx_opcode tg = OPCODE_SRG_R"
      and "state c = CNETZ_IDLE" and "\<not> loopback c"
      and "distinct (map addr (trans_list c))"
      and "a \<notin> addr ` set (others_of (futln_nationalitaet tg) (futln_heimat_fuvst_nr tg)
                                     (futln_rest_nr tg) c)"
      and "length e = 7" and "list_all decimal_digit e" and "decimal (drop 2 e) \<le> 65535"
      and "\<not> subscriber_busy (word_of_nat (digit_value (e ! 0))) (word_of_nat (digit_value (e ! 1)))
               (word_of_nat (decimal (drop 2 e))) senders"
      and "first_idle senders = Some i"
      and "distinct (map addr (trans_list (senders ! i)))"
      and "a' \<notin> addr ` set (trans_list (senders ! i))"
  shows "(\<exists>c'. cnetz_receive_telegramm_ogk B S dsz True (Some a) tg block c = Inr c'
           \<and> trans_list c' = [new_transaction a TRANS_VWG (futln_nationalitaet tg)
                                  (futln_heimat_fuvst_nr tg) (futln_rest_nr tg)]
           \<and> freed (events c') = freed (events c)
                 @ (case dup_of (futln_nationalitaet tg) (futln_heimat_fuvst_nr tg)
                           (futln_rest_nr tg) c of None \<Rightarrow> [] | Some d \<Rightarrow> [addr d])
                 @ map addr (others_of (futln_nationalitaet tg) (futln_heimat_fuvst_nr tg)
                              (futln_rest_nr tg) c)
           \<and> state c' = CNETZ_BUSY)
       \<and> (\<exists>c'. call_out_setup (Some a') cr d senders = Inr (None, senders[i := c'])
           \<and> trans_list c' = [new_transaction a' TRANS_VAK (word_of_nat (digit_value (e ! 0)))
                                  (word_of_nat (digit_value (e ! 1)))
                                  (word_of_nat (decimal (drop 2 e)))]
           \<and> freed (events c') = freed (events (senders ! i)) @ map addr (trans_list (senders ! i))
           \<and> callref c' = cr \<and> state c' = CNETZ_BUSY)"
proof (rule conjI)
  show "\<exists>c'. cnetz_receive_telegramm_ogk B S dsz True (Some a) tg block c = Inr c'
           \<and> trans_list c' = [new_transaction a TRANS_VWG (futln_nationalitaet tg)
                                  (futln_heimat_fuvst_nr tg) (futln_rest_nr tg)]
           \<and> freed (events c') = freed (events c)
                 @ (case dup_of (futln_nationalitaet tg) (futln_heimat_fuvst_nr tg)
                           (futln_rest_nr tg) c of None \<Rightarrow> [] | Some d \<Rightarrow> [addr d])
                 @ map addr (others_of (futln_nationalitaet tg) (futln_heimat_fuvst_nr tg)
                              (futln_rest_nr tg) c)
           \<and> state c' = CNETZ_BUSY"
    using assms(2-6) by (rule receive_call_request)
  show "\<exists>c'. call_out_setup (Some a') cr d senders = Inr (None, senders[i := c'])
           \<and> trans_list c' = [new_transaction a' TRANS_VAK (word_of_nat (digit_value (e ! 0)))
                                  (word_of_nat (digit_value (e ! 1)))
                                  (word_of_nat (decimal (drop 2 e)))]
           \<and> freed (events c') = freed (events (senders ! i)) @ map addr (trans_list (senders ! i))
           \<and> callref c' = cr \<and> state c' = CNETZ_BUSY"
    using assms(7-13) unfolding e_def by (rule call_out_setup_accept)
qed

lemma example_number: "effective_number (c_str ''01602265535'') = ''2265535''"
  by (simp add: effective_number_def c_str_def)

lemma example_number_values:
  "digit_value (''2265535'' ! 0) = 2" "digit_value (''2265535'' ! 1) = 2"
  "decimal (drop 2 ''2265535'') = 65535"
  by (simp_all add: decimal_def digit_value_def)

lemmas example_defs = ogk_two_def ogk_idle_def cnetz_calloc_def same_futln_def
  new_transaction_def Let_def trans_new_state_def

lemma example_others: "others_of 2 2 300 ogk_two = trans_list ogk_two"
  "dup_of 2 2 300 ogk_two = None"
  "map addr (trans_list ogk_two) = [10, 11]"
  "freed (events ogk_two) = []"
  by (simp_all add: others_of_def dup_of_def example_defs)

lemma example_facts:
  "state ogk_two = CNETZ_IDLE" "loopback ogk_two = False"
  "distinct (map addr (trans_list ogk_two)) = True"
  "list_all decimal_digit ''2265535'' = True"
  "list_ex (same_futln 2 2 65535) (trans_list ogk_two) = False"
  by (simp_all add: example_defs decimal_digit_def)

lemmas example_three_defs = ogk_three_def ogk_idle_def cnetz_calloc_def same_futln_def
  new_transaction_def Let_def trans_new_state_def

lemma example_three:
  "map addr (others_of 2 2 300 ogk_three) = [10, 13]"
  "dup_of 2 2 300 ogk_three = Some (new_transaction 11 TRANS_UM 2 2 300)"
  "addr (new_transaction 11 TRANS_UM 2 2 300) = 11"
  "map addr (trans_list ogk_three) = [10, 11, 13]"
  "freed (events ogk_three) = []"
  "state ogk_three = CNETZ_IDLE" "loopback ogk_three = False"
  "distinct (map addr (trans_list ogk_three)) = True"
  by (simp_all add: others_of_def dup_of_def example_three_defs)

lemma call_request_fields:
  "futln_nationalitaet call_request = 2" "futln_heimat_fuvst_nr call_request = 2"
  "futln_rest_nr call_request = 300"
  "rx_opcode call_request = OPCODE_VWG_R \<or> rx_opcode call_request = OPCODE_SRG_R"
  by (simp_all add: call_request_def)

theorem new_call_flushes_other_transactions_witness:
  "(\<exists>c'. cnetz_receive_telegramm_ogk (Num 198) (Num 12672) 17 True (Some 12) call_request 5 ogk_three = Inr c'
       \<and> trans_list c' = [new_transaction 12 TRANS_VWG 2 2 300]
       \<and> freed (events c') = [11, 10, 13] \<and> state c' = CNETZ_BUSY)
   \<and> (\<exists>c'. call_out_setup (Some 12) 7 ''01602265535'' [ogk_two] = Inr (None, [ogk_two][0 := c'])
       \<and> trans_list c' = [new_transaction 12 TRANS_VAK 2 2 65535]
       \<and> freed (events c') = [10, 11] \<and> callref c' = 7 \<and> state c' = CNETZ_BUSY)"
proof -
  note tg = call_request_fields(1-3)
  note h1 = call_request_fields(4)
  have h2: "state ogk_three = CNETZ_IDLE" by (rule example_three(6))
  have h3: "\<not> loopback ogk_three" by (simp add: example_three)
  have h4: "distinct (map addr (trans_list ogk_three))" by (simp add: example_three)
  have h5: "12 \<notin> addr ` set (others_of (futln_nationalitaet call_request)
               (futln_heimat_fuvst_nr call_request) (futln_rest_nr call_request) ogk_three)"
    unfolding tg set_map [symmetric] by (simp add: example_three)
  have i2: "state ogk_two = CNETZ_IDLE" by (rule example_facts(1))
  have i4: "distinct (map addr (trans_list ogk_two))" by (simp add: example_facts)
  have h6: "length (effective_number (c_str ''01602265535'')) = 7"
    by (simp add: example_number)
  have h7: "list_all decimal_digit (effective_number (c_str ''01602265535''))"
    unfolding example_number by (simp only: example_facts)
  have h8: "decimal (drop 2 (effective_number (c_str ''01602265535''))) \<le> 65535"
    by (simp only: example_number example_number_values)
  have h9: "\<not> subscriber_busy
      (word_of_nat (digit_value (effective_number (c_str ''01602265535'') ! 0)))
      (word_of_nat (digit_value (effective_number (c_str ''01602265535'') ! 1)))
      (word_of_nat (decimal (drop 2 (effective_number (c_str ''01602265535''))))) [ogk_two]"
    unfolding example_number example_number_values subscriber_busy_iff [symmetric]
    by (simp add: example_facts)
  have h10: "first_idle [ogk_two] = Some 0" by (simp add: i2)
  have h11: "distinct (map addr (trans_list ([ogk_two] ! 0)))" by (simp add: i4)
  have h12: "12 \<notin> addr ` set (trans_list ([ogk_two] ! 0))"
    unfolding set_map [symmetric] by (simp add: example_others)
  from new_call_flushes_other_transactions [OF h1 h2 h3 h4 h5 h6 h7 h8 h9 h10 h11 h12,
      of "Num 198" "Num 12672" 17 5 7]
  show ?thesis
    unfolding example_number example_number_values tg
    by (simp add: example_others example_three)
qed

text \<open>
  C3, the part that does not hold: the transactions are not always destroyed oldest
  first.  On a channel with the transactions 10, 11 and 13 in this order, the second one
  of the subscriber who now requests a call, \<open>create_transaction\<close> destroys 11 before it
  links the new transaction, and the flush then destroys 10 and 13.
\<close>

theorem pending_transaction_is_freed_first:
  "map addr (trans_list ogk_three) = [10, 11, 13]
   \<and> (\<exists>c'. cnetz_receive_telegramm_ogk (Num 198) (Num 12672) 17 True (Some 12) call_request 5
              ogk_three = Inr c'
         \<and> trans_list c' = [new_transaction 12 TRANS_VWG 2 2 300]
         \<and> freed (events c') = [11, 10, 13] \<and> state c' = CNETZ_BUSY)"
proof -
  have h2: "state ogk_three = CNETZ_IDLE" by (rule example_three(6))
  have h3: "\<not> loopback ogk_three" by (simp add: example_three)
  have h4: "distinct (map addr (trans_list ogk_three))" by (simp add: example_three)
  have h5: "12 \<notin> addr ` set (others_of (futln_nationalitaet call_request)
               (futln_heimat_fuvst_nr call_request) (futln_rest_nr call_request) ogk_three)"
    unfolding call_request_fields set_map [symmetric] by (simp add: example_three)
  from receive_call_request [OF call_request_fields(4) h2 h3 h4 h5, of "Num 198" "Num 12672" 17 5]
  show ?thesis
    unfolding call_request_fields
    by (simp add: example_three)
qed

lemma c_str_append_digits: "c_str (''0160'' @ d) = ''0160'' @ c_str d"
  by (simp add: c_str_def)

lemma call_out_setup_cong:
  assumes "effective_number (c_str d) = effective_number (c_str d')"
  shows "call_out_setup new cr d senders = call_out_setup new cr d' senders"
  unfolding call_out_setup_def Let_def effective_number_def [symmetric]
  by (simp only: assms)

lemma call_out_setup_prefix:
  assumes "length (c_str d) = 7"
  shows "call_out_setup new cr (''0160'' @ d) senders = call_out_setup new cr d senders"
proof (rule call_out_setup_cong)
  show "effective_number (c_str (''0160'' @ d)) = effective_number (c_str d)"
    using assms by (simp add: c_str_def effective_number_def)
qed

lemma call_out_setup_valid_not_rejected:
  assumes "length (effective_number (c_str d)) = 7"
      and "list_all decimal_digit (effective_number (c_str d))"
      and "decimal (drop 2 (effective_number (c_str d))) \<le> 65535"
  shows "call_out_setup new cr d senders \<noteq> Inr (Some CAUSE_INVALNUMBER, x)"
proof -
  let ?e = "effective_number (c_str d)"
  from assms have "list_all is_digit (drop 2 ?e)" "drop 2 ?e \<noteq> []"
    by (auto simp add: is_digit_fun list_all_iff dest: in_set_dropD)
  then have "atoi (drop 2 ?e) = int (decimal (drop 2 ?e))"
    by (rule atoi_decimal)
  with assms show ?thesis
    by (simp add: call_out_setup_def Let_def effective_number_def [symmetric]
          list_all_index7 is_digit_fun split: option.splits sum.splits prod.splits)
qed

lemma new_transaction_fields:
  "trans_state (new_transaction a st n f r) = st"
  "futln_nat (new_transaction a st n f r) = n"
  "futln_fuvst (new_transaction a st n f r) = f"
  "futln_rest (new_transaction a st n f r) = r"
  by (simp_all add: new_transaction_def Let_def trans_new_state_def)

text \<open>
  C7.  \<open>e\<close> is the dial string as it counts: an 11-character string that starts with 0160
  counts as its last seven characters.  If \<open>e\<close> has not seven characters, or a character of
  it is not a decimal digit, or the value of its last five digits is above 65535, the call
  is rejected with \<open>CAUSE_INVALNUMBER\<close> and nothing changes; otherwise it is never rejected
  with that cause.  When the number is valid, the subscriber has no transaction, and there
  is an idle channel, the call is accepted and the transaction that is created is in state
  VAK with the value of the first digit as national code, of the second as exchange code,
  and of digits three to seven as rest number.  A seven-character string and the same
  string after 0160 are treated alike.
\<close>

theorem call_out_setup_dial_string:
  fixes d :: string
  defines "e \<equiv> effective_number (c_str d)"
  shows "(length e \<noteq> 7 \<or> \<not> list_all decimal_digit e \<or> decimal (drop 2 e) > 65535
            \<longrightarrow> call_out_setup new cr d senders = Inr (Some CAUSE_INVALNUMBER, senders))
       \<and> (length e = 7 \<and> list_all decimal_digit e \<and> decimal (drop 2 e) \<le> 65535
            \<longrightarrow> call_out_setup new cr d senders \<noteq> Inr (Some CAUSE_INVALNUMBER, x))
       \<and> (length e = 7 \<and> list_all decimal_digit e \<and> decimal (drop 2 e) \<le> 65535
          \<and> \<not> subscriber_busy (word_of_nat (digit_value (e ! 0)))
                 (word_of_nat (digit_value (e ! 1))) (word_of_nat (decimal (drop 2 e))) senders
          \<and> first_idle senders = Some i
          \<and> distinct (map addr (trans_list (senders ! i)))
          \<and> a \<notin> addr ` set (trans_list (senders ! i))
            \<longrightarrow> (\<exists>c' t. call_out_setup (Some a) cr d senders = Inr (None, senders[i := c'])
                  \<and> trans_list c' = [t] \<and> trans_state t = TRANS_VAK
                  \<and> futln_nat t = word_of_nat (digit_value (e ! 0))
                  \<and> futln_fuvst t = word_of_nat (digit_value (e ! 1))
                  \<and> futln_rest t = word_of_nat (decimal (drop 2 e))))
       \<and> (length (c_str d) = 7
            \<longrightarrow> call_out_setup new cr (''0160'' @ d) senders = call_out_setup new cr d senders)"
proof (intro conjI impI)
  assume "length e \<noteq> 7 \<or> \<not> list_all decimal_digit e \<or> decimal (drop 2 e) > 65535"
  then show "call_out_setup new cr d senders = Inr (Some CAUSE_INVALNUMBER, senders)"
    unfolding e_def by (rule call_out_setup_reject)
next
  assume "length e = 7 \<and> list_all decimal_digit e \<and> decimal (drop 2 e) \<le> 65535"
  then show "call_out_setup new cr d senders \<noteq> Inr (Some CAUSE_INVALNUMBER, x)"
    unfolding e_def by (intro call_out_setup_valid_not_rejected) simp_all
next
  assume h: "length e = 7 \<and> list_all decimal_digit e \<and> decimal (drop 2 e) \<le> 65535
          \<and> \<not> subscriber_busy (word_of_nat (digit_value (e ! 0)))
                 (word_of_nat (digit_value (e ! 1))) (word_of_nat (decimal (drop 2 e))) senders
          \<and> first_idle senders = Some i
          \<and> distinct (map addr (trans_list (senders ! i)))
          \<and> a \<notin> addr ` set (trans_list (senders ! i))"
  have "\<exists>c'. call_out_setup (Some a) cr d senders = Inr (None, senders[i := c'])
           \<and> trans_list c' = [new_transaction a TRANS_VAK (word_of_nat (digit_value (e ! 0)))
                                  (word_of_nat (digit_value (e ! 1)))
                                  (word_of_nat (decimal (drop 2 e)))]
           \<and> freed (events c') = freed (events (senders ! i)) @ map addr (trans_list (senders ! i))
           \<and> callref c' = cr \<and> state c' = CNETZ_BUSY"
    using h unfolding e_def by (intro call_out_setup_accept) simp_all
  then obtain c' where
    "call_out_setup (Some a) cr d senders = Inr (None, senders[i := c'])"
    "trans_list c' = [new_transaction a TRANS_VAK (word_of_nat (digit_value (e ! 0)))
                                  (word_of_nat (digit_value (e ! 1)))
                                  (word_of_nat (decimal (drop 2 e)))]"
    by blast
  then show "\<exists>c' t. call_out_setup (Some a) cr d senders = Inr (None, senders[i := c'])
                  \<and> trans_list c' = [t] \<and> trans_state t = TRANS_VAK
                  \<and> futln_nat t = word_of_nat (digit_value (e ! 0))
                  \<and> futln_fuvst t = word_of_nat (digit_value (e ! 1))
                  \<and> futln_rest t = word_of_nat (decimal (drop 2 e))"
    by (intro exI conjI) (assumption, assumption, simp_all only: new_transaction_fields)
next
  assume "length (c_str d) = 7"
  then show "call_out_setup new cr (''0160'' @ d) senders = call_out_setup new cr d senders"
    by (rule call_out_setup_prefix)
qed

lemma example_rejected:
  "effective_number (c_str ''2265536'') = ''2265536''"
  "decimal (drop 2 ''2265536'') = 65536"
  "effective_number (c_str ''2265535'') = ''2265535''"
  by (simp_all add: effective_number_def c_str_def decimal_def digit_value_def)

lemma example_c_str: "c_str ''2265535'' = ''2265535''"
  by (simp add: c_str_def)

theorem call_out_setup_dial_string_witness:
  "decimal (drop 2 (effective_number (c_str ''2265536''))) > 65535
   \<and> call_out_setup None 7 ''2265536'' [ogk_two] = Inr (Some CAUSE_INVALNUMBER, [ogk_two])
   \<and> decimal (drop 2 (effective_number (c_str ''2265535''))) = 65535
   \<and> call_out_setup None 7 ''2265535'' [ogk_two] \<noteq> Inr (Some CAUSE_INVALNUMBER, [ogk_two])
   \<and> (\<exists>c' t. call_out_setup (Some 12) 7 ''2265535'' [ogk_two] = Inr (None, [ogk_two][0 := c'])
         \<and> trans_list c' = [t] \<and> trans_state t = TRANS_VAK
         \<and> futln_nat t = 2 \<and> futln_fuvst t = 2 \<and> futln_rest t = 65535)
   \<and> call_out_setup None 7 (''0160'' @ ''2265535'') [ogk_two]
       = call_out_setup None 7 ''2265535'' [ogk_two]"
proof -
  have r: "decimal (drop 2 (effective_number (c_str ''2265536''))) > 65535"
    by (simp only: example_rejected)
  have v: "decimal (drop 2 (effective_number (c_str ''2265535''))) = 65535"
    by (simp only: example_rejected example_number_values)
  have ok: "length (effective_number (c_str ''2265535'')) = 7
      \<and> list_all decimal_digit (effective_number (c_str ''2265535''))
      \<and> decimal (drop 2 (effective_number (c_str ''2265535''))) \<le> 65535"
    by (simp only: example_rejected example_number_values example_facts) simp
  have free: "\<not> subscriber_busy
      (word_of_nat (digit_value (effective_number (c_str ''2265535'') ! 0)))
      (word_of_nat (digit_value (effective_number (c_str ''2265535'') ! 1)))
      (word_of_nat (decimal (drop 2 (effective_number (c_str ''2265535''))))) [ogk_two]
      \<and> first_idle [ogk_two] = Some 0
      \<and> distinct (map addr (trans_list ([ogk_two] ! 0)))
      \<and> 12 \<notin> addr ` set (trans_list ([ogk_two] ! 0))"
    unfolding example_rejected example_number_values subscriber_busy_iff [symmetric]
      set_map [symmetric]
    by (simp add: example_facts example_others)
  have len: "length (c_str ''2265535'') = 7"
    by (simp only: example_c_str) simp
  note t1 = call_out_setup_dial_string [of "''2265536''" None 7 "[ogk_two]" "[ogk_two]" 0 12]
  note t2 = call_out_setup_dial_string [of "''2265535''" None 7 "[ogk_two]" "[ogk_two]" 0 12]
  note t3 = call_out_setup_dial_string [of "''2265535''" "Some 12" 7 "[ogk_two]" "[ogk_two]" 0 12]
  have p1: "call_out_setup None 7 ''2265536'' [ogk_two] = Inr (Some CAUSE_INVALNUMBER, [ogk_two])"
    using t1 r by blast
  have p2: "call_out_setup None 7 ''2265535'' [ogk_two] \<noteq> Inr (Some CAUSE_INVALNUMBER, [ogk_two])"
    using t2 ok by blast
  have p3: "\<exists>c' t. call_out_setup (Some 12) 7 ''2265535'' [ogk_two] = Inr (None, [ogk_two][0 := c'])
         \<and> trans_list c' = [t] \<and> trans_state t = TRANS_VAK
         \<and> futln_nat t = word_of_nat (digit_value (effective_number (c_str ''2265535'') ! 0))
         \<and> futln_fuvst t = word_of_nat (digit_value (effective_number (c_str ''2265535'') ! 1))
         \<and> futln_rest t = word_of_nat (decimal (drop 2 (effective_number (c_str ''2265535''))))"
    using t3 ok free by blast
  have p4: "call_out_setup None 7 (''0160'' @ ''2265535'') [ogk_two]
       = call_out_setup None 7 ''2265535'' [ogk_two]"
    using t2 len by blast
  from p3 have p3a: "\<exists>c' t. call_out_setup (Some 12) 7 ''2265535'' [ogk_two] = Inr (None, [ogk_two][0 := c'])
         \<and> trans_list c' = [t] \<and> trans_state t = TRANS_VAK
         \<and> futln_nat t = 2 \<and> futln_fuvst t = 2 \<and> futln_rest t = 65535"
    unfolding example_rejected example_number_values by simp
  from r p1 v p2 p3a p4 show ?thesis by (intro conjI)
qed

text \<open>
  C2.  With every allocation and initialisation succeeding, \<open>cnetz_create\<close> creates the
  instance for every channel number whatever, valid or not: neither of the two guards
  that would log the invalid channel and return \<open>-EINVAL\<close> can hold.  Channel 949 is odd
  and above 947, channel 760 is even and above 758, channel 0 is even and below 2.
\<close>

theorem cnetz_create_accepts_every_channel:
  "cnetz_create env_ok pe de k au mp 0 0 lb
     = ((if k = 1 \<or> k = 2
         then [Log_Notice ''Channel ('Kanal') number is specified as 'unused', it might not work!'']
         else [])
        @ (if k = CNETZ_OGK_KANAL
           then [Log_Notice ''You selected channel ('Orga-Kanal') for speech channel. Some phones will reject this.'']
           else []),
        Inr (cnetz_calloc\<lparr>kanal := k, loopback := lb, state := CNETZ_IDLE,
               dsp_mode := DSP_MODE_OGK, sched_dsp_mode := DSP_MODE_OGK,
               auth := au, ms_power := mp, pre_emphasis := pe, de_emphasis := de\<rparr>))
   \<and> snd (cnetz_create env_ok 0 0 949 0 0 0 0 False)
       = Inr (cnetz_calloc\<lparr>kanal := 949, state := CNETZ_IDLE,
                dsp_mode := DSP_MODE_OGK, sched_dsp_mode := DSP_MODE_OGK\<rparr>)
   \<and> snd (cnetz_create env_ok 0 0 760 0 0 0 0 False)
       = Inr (cnetz_calloc\<lparr>kanal := 760, state := CNETZ_IDLE,
                dsp_mode := DSP_MODE_OGK, sched_dsp_mode := DSP_MODE_OGK\<rparr>)
   \<and> snd (cnetz_create env_ok 0 0 0 0 0 0 0 False)
       = Inr (cnetz_calloc\<lparr>kanal := 0, state := CNETZ_IDLE,
                dsp_mode := DSP_MODE_OGK, sched_dsp_mode := DSP_MODE_OGK\<rparr>)"
  by (simp add: cnetz_create_def env_ok_def dsp_init_sender_def cnetz_go_idle_def Let_def
        cnetz_calloc_def CNETZ_OGK_KANAL_def)

section \<open>C-Netz: channel frequencies and the slot clock\<close>



lemma trunc_small: "0 \<le> x \<Longrightarrow> x < 1 \<Longrightarrow> trunc x = 0"
  by (simp add: trunc_def floor_eq_iff)

lemma trunc_small_neg: "x \<le> 0 \<Longrightarrow> - 1 < x \<Longrightarrow> trunc x = 0"
  by (auto simp add: trunc_def ceiling_eq_iff floor_eq_iff)

lemma fmod_small: "0 < y \<Longrightarrow> \<bar>x\<bar> < y \<Longrightarrow> fmod x y = x"
proof -
  assume y: "0 < y" and x: "\<bar>x\<bar> < y"
  have "trunc (x / y) = 0"
  proof (cases "0 \<le> x")
    case True
    with x y show ?thesis by (intro trunc_small) simp_all
  next
    case False
    with x y show ?thesis by (intro trunc_small_neg) (simp_all add: field_simps)
  qed
  then show ?thesis by (simp add: fmod_def)
qed

lemma sync_frame_of_offset:
  assumes "sync_offset B S sync block = Num off" "is_double off"
  shows "cnetz_sync_frame B S sync block c
           = emit (Fsk_Correct_Sync (if \<bar>off\<bar> > 1 / 2 then Num off else round_double (off / 2))) c"
proof -
  have "cnetz_sync_frame B S sync block c
          = emit (Fsk_Correct_Sync
              (if d_less (Num off) (Num (- 0.5)) \<or> d_less (Num 0.5) (Num off) then Num off
               else d_half (Num off))) c"
    by (simp add: cnetz_sync_frame_def assms(1) Let_def)
  then show ?thesis
    by (simp only: correction_of_offset(1) [OF assms(2)])
qed

text \<open>
  C6.  Let the moduli \<open>BITS_PER_BLOCK = b\<close> and \<open>BITS_PER_SUPERFRAME = s\<close> be doubles of at
  least 1 and the sync time \<open>y\<close> a finite double.  \<open>cnetz_sync_frame\<close> folds \<open>x\<close> modulo
  \<open>m\<close>, where with a known block (\<open>block \<ge> 0\<close>) \<open>x\<close> is the sum
  \<open>sync - BITS_PER_BLOCK * block + BITS_PER_SUPERFRAME\<close> as double arithmetic gives it,
  supposed finite, and \<open>m = s\<close>, and without one \<open>x = y\<close> and \<open>m = b\<close>.  The folded offset
  differs from \<open>x\<close> by a whole multiple of \<open>m\<close>; it is the remainder with the sign of \<open>x\<close>,
  less \<open>m\<close> when the remainder is above \<open>m / 2\<close>, so that it lies above \<open>- m / 2\<close> and up to
  \<open>m / 2\<close> for \<open>x \<ge> 0\<close>, and above \<open>- m\<close> and up to 0 for \<open>x \<le> 0\<close>; no rounding occurs in
  the fold.  The demodulator is then corrected by the whole offset when the offset is
  above 0.5 or below -0.5, and by half of it otherwise (the half is exact unless the
  offset is below \<open>2 ^ - 1021\<close> in magnitude); in particular an offset of exactly 0.5 or
  -0.5 is halved.
\<close>

theorem cnetz_sync_frame_correction:
  assumes "is_double b" and "1 \<le> b" and "is_double s" and "1 \<le> s" and "is_double y"
    and "(if 0 \<le> block
          then d_add (d_sub (Num y) (d_mul (Num b) (d_of_int block))) (Num s)
          else Num y) = Num x"
  shows "let m = (if 0 \<le> block then s else b)
         in \<exists>off k. sync_offset (Num b) (Num s) (Num y) block = Num off
              \<and> off = x - of_int k * m
              \<and> - m < off \<and> off \<le> m / 2 \<and> (0 \<le> x \<longrightarrow> - (m / 2) < off) \<and> (x \<le> 0 \<longrightarrow> off \<le> 0)
              \<and> cnetz_sync_frame (Num b) (Num s) (Num y) block c
                  = emit (Fsk_Correct_Sync
                      (if \<bar>off\<bar> > 1 / 2 then Num off else round_double (off / 2))) c
              \<and> (\<bar>off\<bar> = 1 / 2 \<longrightarrow>
                    cnetz_sync_frame (Num b) (Num s) (Num y) block c
                      = emit (Fsk_Correct_Sync (Num (off / 2))) c)
              \<and> (2 powi (- 1021) \<le> \<bar>off\<bar> \<longrightarrow> round_double (off / 2) = Num (off / 2))"
proof -
  define m where "m = (if 0 \<le> block then s else b)"
  define off where "off = (if m / 2 < fmod x m then fmod x m - m else fmod x m)"
  from assms(1-4) have m: "is_double m" "1 \<le> m" by (simp_all add: m_def)
  have x: "is_double x"
  proof (cases "0 \<le> block")
    case True
    with assms(6) obtain u v where "round_double (u + v) = Num x"
      by (auto dest: d_add_Num)
    then show ?thesis by (simp add: is_double_repr round_repr)
  next
    case False
    with assms(5,6) show ?thesis by simp
  qed
  note f = fold_offset [OF m x, folded off_def]
  have so: "sync_offset (Num b) (Num s) (Num y) block = Num off"
  proof (cases "0 \<le> block")
    case True
    then have ms: "m = s" by (simp add: m_def)
    from assms(6) True
    have "d_add (d_sub (Num y) (d_mul (Num b) (d_of_int block))) (Num s) = Num x" by simp
    with True have "sync_offset (Num b) (Num s) (Num y) block
        = (let offset = d_fmod (Num x) (Num s)
           in if d_less (d_half (Num s)) offset then d_sub offset (Num s) else offset)"
      by (simp only: sync_offset_def if_True)
    with f(1) [unfolded ms] show ?thesis by (simp only:)
  next
    case False
    then have mb: "m = b" by (simp add: m_def)
    from assms(6) False have "y = x" by simp
    with False have "sync_offset (Num b) (Num s) (Num y) block
        = (let offset = d_fmod (Num x) (Num b)
           in if d_less (d_half (Num b)) offset then d_sub offset (Num b) else offset)"
      by (simp only: sync_offset_def if_False)
    with f(1) [unfolded mb] show ?thesis by (simp only:)
  qed
  note fr = sync_frame_of_offset [OF so f(2), of c]
  from f(3) obtain k where k: "off = x - of_int k * m" ..
  have half: "cnetz_sync_frame (Num b) (Num s) (Num y) block c
                = emit (Fsk_Correct_Sync (Num (off / 2))) c" if "\<bar>off\<bar> = 1 / 2"
    using fr that correction_of_offset(2) [OF f(2) that] by simp
  have exact: "round_double (off / 2) = Num (off / 2)" if "2 powi (- 1021) \<le> \<bar>off\<bar>"
    using that by (rule correction_of_offset(3) [OF f(2)])
  have "sync_offset (Num b) (Num s) (Num y) block = Num off
              \<and> off = x - of_int k * m
              \<and> - m < off \<and> off \<le> m / 2 \<and> (0 \<le> x \<longrightarrow> - (m / 2) < off) \<and> (x \<le> 0 \<longrightarrow> off \<le> 0)
              \<and> cnetz_sync_frame (Num b) (Num s) (Num y) block c
                  = emit (Fsk_Correct_Sync
                      (if \<bar>off\<bar> > 1 / 2 then Num off else round_double (off / 2))) c
              \<and> (\<bar>off\<bar> = 1 / 2 \<longrightarrow>
                    cnetz_sync_frame (Num b) (Num s) (Num y) block c
                      = emit (Fsk_Correct_Sync (Num (off / 2))) c)
              \<and> (2 powi (- 1021) \<le> \<bar>off\<bar> \<longrightarrow> round_double (off / 2) = Num (off / 2))"
    using so k f(4-7) fr half exact by (intro conjI impI) assumption+
  then show ?thesis
    unfolding Let_def m_def [symmetric] by blast
qed

lemma example_doubles:
  "is_double 198" "is_double 12672" "is_double (1 / 2)" "is_double (- (1 / 2))"
  "is_double (1 / 2 + 1 / 2 ^ 53)" "is_double (1 / 2 + 1 / 2 ^ 20)"
  "is_double (- (1 / 2 + 1 / 2 ^ 20))" "is_double (594 + 1 / 2)" "is_double (12672 + 1 / 2)"
proof -
  show "is_double 198" using is_double_int [of 198] by simp
  show "is_double 12672" using is_double_int [of 12672] by simp
  show "is_double (1 / 2)" "is_double (- (1 / 2))" by (simp_all add: is_double_repr repr_quarter)
  show "is_double (1 / 2 + 1 / 2 ^ 53)"
    by (rule is_doubleI [of _ "2 ^ 52 + 1" "- 53"]) (simp_all add: power_int_minus_divide)
  show p: "is_double (1 / 2 + 1 / 2 ^ 20)"
    by (rule is_doubleI [of _ "2 ^ 19 + 1" "- 20"]) (simp_all add: power_int_minus_divide)
  show "is_double (- (1 / 2 + 1 / 2 ^ 20))"
    by (rule is_doubleI [of _ "- (2 ^ 19 + 1)" "- 20"]) (simp_all add: power_int_minus_divide)
  show "is_double (594 + 1 / 2)"
    by (rule is_doubleI [of _ 1189 "- 1"]) (simp_all add: power_int_minus_divide)
  show "is_double (12672 + 1 / 2)"
    by (rule is_doubleI [of _ 25345 "- 1"]) (simp_all add: power_int_minus_divide)
qed

lemma example_sum:
  "round_double (1 / 2 + 1 / 2 ^ 53 + 12672) = Num (12672 + 1 / 2)"
proof -
  have "round_double (1 / 2 + 1 / 2 ^ 53 + 12672) = Num (of_int (25345 * 2 ^ 38) * 2 powi (13 - 52))"
    by (rule round_double_near) (simp_all add: power_int_minus_divide)
  also have "of_int (25345 * 2 ^ 38) * 2 powi (13 - 52) = (12672 + 1 / 2 :: real)"
    by (simp add: power_int_minus_divide)
  finally show ?thesis .
qed

lemma example_known_block:
  "d_add (d_sub (Num (1 / 2 + 1 / 2 ^ 53)) (d_mul (Num 198) (d_of_int 0))) (Num 12672)
     = Num (12672 + 1 / 2)"
  "d_add (d_sub (Num (594 + 1 / 2)) (d_mul (Num 198) (d_of_int 3))) (Num 12672)
     = Num (12672 + 1 / 2)"
proof -
  have z: "round_double 0 = Num 0" by (simp add: round_double_def)
  have "d_mul (Num 198) (d_of_int 0) = Num 0"
    by (simp add: d_of_int_def z)
  moreover have "d_sub (Num (1 / 2 + 1 / 2 ^ 53)) (Num 0) = round_double (1 / 2 + 1 / 2 ^ 53)"
    by (simp add: d_sub_def)
  moreover have "round_double (1 / 2 + 1 / 2 ^ 53) = Num (1 / 2 + 1 / 2 ^ 53)"
    using example_doubles(5) by (simp only: is_double_def)
  moreover have "d_add (Num (1 / 2 + 1 / 2 ^ 53)) (Num 12672)
      = round_double (1 / 2 + 1 / 2 ^ 53 + 12672)"
    by (simp only: d_add.simps)
  ultimately show "d_add (d_sub (Num (1 / 2 + 1 / 2 ^ 53)) (d_mul (Num 198) (d_of_int 0)))
      (Num 12672) = Num (12672 + 1 / 2)"
    by (simp only: example_sum)
  have "d_of_int 3 = Num 3"
    using round_double_int [of 3] by (simp add: d_of_int_def)
  moreover have "d_mul (Num 198) (Num 3) = Num 594"
    using round_double_int [of 594] by simp
  moreover have "d_sub (Num (594 + 1 / 2)) (Num 594) = round_double (1 / 2)"
    by (simp add: d_sub_def)
  moreover have "round_double (1 / 2) = Num (1 / 2)"
    using example_doubles(3) by (simp only: is_double_def)
  moreover have "d_add (Num (1 / 2)) (Num 12672) = round_double (12672 + 1 / 2)"
    by (simp add: add.commute)
  moreover have "round_double (12672 + 1 / 2) = Num (12672 + 1 / 2)"
    using example_doubles(9) by (simp only: is_double_def)
  ultimately show "d_add (d_sub (Num (594 + 1 / 2)) (d_mul (Num 198) (d_of_int 3))) (Num 12672)
     = Num (12672 + 1 / 2)"
    by (simp only:)
qed

theorem cnetz_sync_frame_correction_witness:
  "is_double 198 \<and> is_double 12672 \<and> is_double (1 / 2 + 1 / 2 ^ 53)
   \<and> d_add (d_sub (Num (1 / 2 + 1 / 2 ^ 53)) (d_mul (Num 198) (d_of_int 0))) (Num 12672)
       = Num (12672 + 1 / 2)
   \<and> sync_offset (Num 198) (Num 12672) (Num (1 / 2 + 1 / 2 ^ 53)) 0 = Num (1 / 2)
   \<and> cnetz_sync_frame (Num 198) (Num 12672) (Num (1 / 2 + 1 / 2 ^ 53)) 0 ogk_idle
       = emit (Fsk_Correct_Sync (Num (1 / 4))) ogk_idle"
proof -
  from cnetz_sync_frame_correction [of 198 12672 "1 / 2 + 1 / 2 ^ 53" 0 "12672 + 1 / 2" ogk_idle]
    example_doubles(1,2,5) example_known_block(1)
  obtain off k where o: "sync_offset (Num 198) (Num 12672) (Num (1 / 2 + 1 / 2 ^ 53)) 0 = Num off"
      "off = 12672 + 1 / 2 - of_int k * 12672" "- (12672 / 2) < off" "off \<le> 12672 / 2"
    and c: "\<bar>off\<bar> = 1 / 2 \<longrightarrow>
              cnetz_sync_frame (Num 198) (Num 12672) (Num (1 / 2 + 1 / 2 ^ 53)) 0 ogk_idle
                = emit (Fsk_Correct_Sync (Num (off / 2))) ogk_idle"
    by (auto simp add: Let_def)
  from o(2,3,4) have "(0 :: real) < of_int k" "(of_int k :: real) < 2" by simp_all
  then have "0 < k" "k < 2" by simp_all
  then have "k = 1" by simp
  with o(2) have off: "off = 1 / 2" by simp
  with o(1) c example_doubles(1,2,5) example_known_block(1) show ?thesis by simp
qed

text \<open>
  More values: a sync time of 0.5 and of -0.5 is halved, one of \<open>0.5 + 2 ^ - 20\<close> or of
  \<open>- 0.5 - 2 ^ - 20\<close> is corrected in full, and with block 3 a sync time of half a bit after
  the start of the block is folded to 0.5 and halved.
\<close>

lemma sync_offset_small:
  assumes "is_double b" "1 \<le> b" "is_double x" "\<bar>x\<bar> \<le> b / 2"
  shows "sync_offset (Num b) S (Num x) (- 1) = Num x"
proof -
  from assms have "\<bar>x\<bar> < b" "0 < b" by simp_all
  then have "fmod x b = x" by (intro fmod_small)
  with fold_offset(1) [OF assms(1-3)] assms(4) show ?thesis
    by (simp add: sync_offset_def Let_def abs_if split: if_splits)
qed

lemma cnetz_sync_frame_examples:
  "cnetz_sync_frame (Num 198) (Num 12672) (Num (1 / 2)) (- 1) ogk_idle
     = emit (Fsk_Correct_Sync (Num (1 / 4))) ogk_idle"
  "cnetz_sync_frame (Num 198) (Num 12672) (Num (- (1 / 2))) (- 1) ogk_idle
     = emit (Fsk_Correct_Sync (Num (- (1 / 4)))) ogk_idle"
  "cnetz_sync_frame (Num 198) (Num 12672) (Num (1 / 2 + 1 / 2 ^ 20)) (- 1) ogk_idle
     = emit (Fsk_Correct_Sync (Num (1 / 2 + 1 / 2 ^ 20))) ogk_idle"
  "cnetz_sync_frame (Num 198) (Num 12672) (Num (- (1 / 2 + 1 / 2 ^ 20))) (- 1) ogk_idle
     = emit (Fsk_Correct_Sync (Num (- (1 / 2 + 1 / 2 ^ 20)))) ogk_idle"
proof -
  note d = example_doubles
  have q: "round_double (1 / 4) = Num (1 / 4)" "round_double (- (1 / 4)) = Num (- (1 / 4))"
    by (simp_all only: repr_round repr_quarter)
  show "cnetz_sync_frame (Num 198) (Num 12672) (Num (1 / 2)) (- 1) ogk_idle
     = emit (Fsk_Correct_Sync (Num (1 / 4))) ogk_idle"
    using sync_frame_of_offset [OF sync_offset_small [OF d(1) _ d(3)] d(3), of "Num 12672" ogk_idle] q
    by simp
  show "cnetz_sync_frame (Num 198) (Num 12672) (Num (- (1 / 2))) (- 1) ogk_idle
     = emit (Fsk_Correct_Sync (Num (- (1 / 4)))) ogk_idle"
    using sync_frame_of_offset [OF sync_offset_small [OF d(1) _ d(4)] d(4), of "Num 12672" ogk_idle] q
    by simp
  show "cnetz_sync_frame (Num 198) (Num 12672) (Num (1 / 2 + 1 / 2 ^ 20)) (- 1) ogk_idle
     = emit (Fsk_Correct_Sync (Num (1 / 2 + 1 / 2 ^ 20))) ogk_idle"
    using sync_frame_of_offset [OF sync_offset_small [OF d(1) _ d(6)] d(6), of "Num 12672" ogk_idle]
    by simp
  show "cnetz_sync_frame (Num 198) (Num 12672) (Num (- (1 / 2 + 1 / 2 ^ 20))) (- 1) ogk_idle
     = emit (Fsk_Correct_Sync (Num (- (1 / 2 + 1 / 2 ^ 20)))) ogk_idle"
    using sync_frame_of_offset [OF sync_offset_small [OF d(1) _ d(7)] d(7), of "Num 12672" ogk_idle]
    by simp
qed

lemma sync_frame_zero:
  "cnetz_sync_frame (Num 198) (Num 12672) (Num 0) (- 1) c = emit (Fsk_Correct_Sync (Num 0)) c"
proof -
  have z: "is_double 0" by (simp add: is_double_def round_double_def)
  from sync_frame_of_offset [OF sync_offset_small [OF example_doubles(1) _ z] z, of "Num 12672" c]
  show ?thesis by (simp add: round_double_def)
qed

section \<open>C-Netz: the scheduler\<close>

subsection \<open>What the functions of \<open>cnetz.c\<close> do to the scheduler\<close>

lemma sched_fields_simps [simp]:
  "dsp_mode (emit e c) = dsp_mode c" "sched_dsp_mode (emit e c) = sched_dsp_mode c"
  "sched_switch_mode (emit e c) = sched_switch_mode c" "sched_r_m (emit e c) = sched_r_m c"
  "sched_ts (emit e c) = sched_ts c"
  "dsp_mode (update_trans a f c) = dsp_mode c" "sched_dsp_mode (update_trans a f c) = sched_dsp_mode c"
  "sched_switch_mode (update_trans a f c) = sched_switch_mode c"
  "sched_r_m (update_trans a f c) = sched_r_m c" "sched_ts (update_trans a f c) = sched_ts c"
  by (simp_all add: emit_def update_trans_def)

lemma sched_of_simps [simp]:
  "sched_of (emit e c) = sched_of c"
  "sched_of (update_trans a f c) = sched_of c"
  "sched_of (c\<lparr>callref := cr\<rparr>) = sched_of c"
  "sched_of (c\<lparr>state := st\<rparr>) = sched_of c"
  "sched_of (c\<lparr>scrambler := sc\<rparr>) = sched_of c"
  "sched_of (c\<lparr>trans_list := tls\<rparr>) = sched_of c"
  "sched_of (c\<lparr>last_tx_timeslot := lt\<rparr>) = sched_of c"
  "sched_of (c\<lparr>events := es\<rparr>) = sched_of c"
  by (simp_all add: sched_of_def emit_def update_trans_def)

lemma sched_env_of: "sched_of c1 = sched_of c2 \<Longrightarrow> sched_env c c1 = sched_env c c2"
  by (simp add: sched_of_def sched_env_def pending_v_def)

lemma sched_env_of_left: "sched_of c1 = sched_of c2 \<Longrightarrow> sched_env c1 c = sched_env c2 c"
  by (simp add: sched_of_def sched_env_def pending_v_def)

lemma sched_env_simps [simp]:
  "sched_env c (emit e c1) = sched_env c c1"
  "sched_env c (update_trans a f c1) = sched_env c c1"
  "sched_env c (c1\<lparr>callref := cr\<rparr>) = sched_env c c1"
  "sched_env c (c1\<lparr>state := st\<rparr>) = sched_env c c1"
  "sched_env c (c1\<lparr>scrambler := sc\<rparr>) = sched_env c c1"
  "sched_env c (c1\<lparr>trans_list := tls\<rparr>) = sched_env c c1"
  "sched_env c (c1\<lparr>last_tx_timeslot := lt\<rparr>) = sched_env c c1"
  "sched_env c (c1\<lparr>events := es\<rparr>) = sched_env c c1"
  by (rule sched_env_of, simp)+

lemma sched_env_left_simps [simp]:
  "sched_env (emit e c1) c = sched_env c1 c"
  "sched_env (update_trans a f c1) c = sched_env c1 c"
  "sched_env (c1\<lparr>callref := cr\<rparr>) c = sched_env c1 c"
  "sched_env (c1\<lparr>state := st\<rparr>) c = sched_env c1 c"
  "sched_env (c1\<lparr>scrambler := sc\<rparr>) c = sched_env c1 c"
  "sched_env (c1\<lparr>trans_list := tls\<rparr>) c = sched_env c1 c"
  "sched_env (c1\<lparr>last_tx_timeslot := lt\<rparr>) c = sched_env c1 c"
  "sched_env (c1\<lparr>events := es\<rparr>) c = sched_env c1 c"
  by (rule sched_env_of_left, simp)+

lemma sched_env_refl [simp]: "sched_env c c"
  by (simp add: sched_env_def)

lemma sched_env_trans: "sched_env a b \<Longrightarrow> sched_env b c \<Longrightarrow> sched_env a c"
  unfolding sched_env_def by (cases "pending_v c"; cases "pending_v b"; simp; metis)

lemma sched_env_go_idle: "sched_env c c1 \<Longrightarrow> sched_env c (cnetz_go_idle c1)"
proof (rule sched_env_trans)
  show "sched_env c1 (cnetz_go_idle c1)"
    by (cases "dsp_mode c1") (simp_all add: sched_env_def pending_v_def cnetz_go_idle_def Let_def)
qed

lemma sched_env_release: "sched_env c c1 \<Longrightarrow> sched_env c (cnetz_release a cs c1)"
proof (rule sched_env_trans)
  show "sched_env c1 (cnetz_release a cs c1)"
    by (simp add: cnetz_release_def Let_def) (simp add: sched_env_def pending_v_def)
qed

lemma sched_env_assign:
  "sched_env c c1 \<Longrightarrow> sched_env c (c1\<lparr>sched_switch_mode := 2, sched_dsp_mode := DSP_MODE_SPK_K\<rparr>)"
  by (simp add: sched_env_def pending_v_def)

lemma sched_env_arm:
  "sched_ts c AND 7 = 7 \<Longrightarrow> sched_r_m c \<noteq> 0 \<Longrightarrow> sched_env c c1
   \<Longrightarrow> sched_env c (c1\<lparr>sched_switch_mode := 1, sched_dsp_mode := DSP_MODE_SPK_V\<rparr>)"
  by (simp add: sched_env_def pending_v_def)

lemma sched_env_destroy:
  "destroy_transaction a c1 = Inr c2 \<Longrightarrow> sched_env c c2 = sched_env c c1"
  by (auto simp add: destroy_transaction_def split: option.splits)

lemma sched_of_destroy:
  "destroy_transaction a c1 = Inr c2 \<Longrightarrow> sched_of c2 = sched_of c1"
  by (auto simp add: destroy_transaction_def split: option.splits)

lemma sched_env_destroy_and_idle:
  "destroy_and_idle a c1 = Inr c2 \<Longrightarrow> sched_env c c1 \<Longrightarrow> sched_env c c2"
  by (auto simp add: destroy_and_idle_def sched_env_destroy intro!: sched_env_go_idle split: sum.splits)

lemma sched_of_create:
  "create_transaction new st n f r c1 = Inr (x, c2) \<Longrightarrow> sched_of c2 = sched_of c1"
  by (auto simp add: create_transaction_def sched_of_destroy split: option.splits sum.splits)

lemma sched_of_flush_before:
  "flush_before a c1 = Inr c2 \<Longrightarrow> sched_of c2 = sched_of c1"
proof (induction a c1 rule: flush_before.induct)
  case (1 a cnetz)
  show ?case
  proof (cases "trans_list cnetz")
    case Nil
    with 1(2) show ?thesis by (simp add: flush_before.simps)
  next
    case (Cons t ts)
    show ?thesis
    proof (cases "addr t = a")
      case True
      with 1(2) Cons show ?thesis by (simp add: flush_before.simps)
    next
      case False
      with 1(2) Cons obtain c' where
        d: "destroy_transaction (addr t) (emit (Log_Notice ''Kicking other pending transaction'') cnetz) = Inr c'"
        and f: "flush_before a c' = Inr c2"
        by (simp add: flush_before.simps [of a cnetz] split: sum.splits)
      from 1(1) [OF Cons False d f] sched_of_destroy [OF d] show ?thesis by simp
    qed
  qed
qed

lemma sched_of_flush:
  "cnetz_flush_other_transactions a c1 = Inr c2 \<Longrightarrow> sched_of c2 = sched_of c1"
  by (auto simp add: cnetz_flush_other_transactions_def sched_of_flush_before split: if_splits sum.splits)

lemma sched_of_sync [simp]: "sched_of (cnetz_sync_frame B S sy bl c) = sched_of c"
  by (simp add: cnetz_sync_frame_def Let_def)

lemma sched_of_release_upward [simp]: "sched_of (release_upward cs c) = sched_of c"
  by (simp add: release_upward_def)

lemma sched_of_spk_finish [simp]: "sched_of (spk_finish B S tg v c) = sched_of c"
  by (simp add: spk_finish_def)

lemma sched_of_release_by_mobile [simp]: "sched_of (release_by_mobile a c) = sched_of c"
  by (simp add: release_by_mobile_def Let_def)

lemma env_rufblock:
  "cnetz_transmit_telegramm_rufblock c = Inr (t, c') \<Longrightarrow> sched_env c c'"
  unfolding cnetz_transmit_telegramm_rufblock_def rufblock_assign_def Let_def
  by (auto split: option.splits trans_state.splits sum.splits
        simp add: sched_env_destroy intro!: sched_env_assign
        dest!: sched_env_destroy_and_idle [where c = c])

lemma env_meldeblock:
  "cnetz_transmit_telegramm_meldeblock c = Inr (t, c') \<Longrightarrow> sched_env c c'"
  unfolding cnetz_transmit_telegramm_meldeblock_def Let_def
  by (auto split: option.splits)

lemma env_spk_af_k:
  "spk_af_k n tr tg c1 = Inr (t, c') \<Longrightarrow> sched_env c c1 \<Longrightarrow> sched_env c c'"
  unfolding spk_af_k_def Let_def
  by (auto split: if_splits sum.splits dest!: sched_env_destroy_and_idle [where c = c])

lemma env_spk_v:
  "cnetz_transmit_telegramm_spk_v n c = Inr (t, c') \<Longrightarrow> sched_env c c'"
  unfolding cnetz_transmit_telegramm_spk_v_def Let_def
  by (auto split: list.splits trans_state.splits if_splits sum.splits
        dest!: sched_env_destroy_and_idle [where c = c])

lemma sched_of_receive_ogk:
  "cnetz_receive_telegramm_ogk B S ds mf new tg bl c = Inr c' \<Longrightarrow> sched_of c' = sched_of c"
  unfolding cnetz_receive_telegramm_ogk_def ogk_finish_def ogk_create_def Let_def
  by (auto split: opcode.splits if_splits sum.splits option.splits prod.splits
        dest!: sched_of_create sched_of_flush)

lemma sched_of_receive_spk_k:
  "sched_of (cnetz_receive_telegramm_spk_k B S mf ml tg c) = sched_of c"
  unfolding cnetz_receive_telegramm_spk_k_def Let_def
  by (simp split: list.splits opcode.splits)

lemma sched_of_receive_spk_v:
  "sched_of (cnetz_receive_telegramm_spk_v B S mf ml tg c) = sched_of c"
  unfolding cnetz_receive_telegramm_spk_v_def Let_def
  by (simp split: list.splits opcode.splits)

lemma env_timeout: "sched_env c c1 \<Longrightarrow> sched_env c (transaction_timeout tr c1)"
  unfolding transaction_timeout_def Let_def release_upward_def
  by (auto split: trans_state.splits intro!: sched_env_release)

lemma env_spk_k:
  assumes "cnetz_transmit_telegramm_spk_k n rc ref c = Inr (t, ref', c')"
  shows "sched_env c c'"
proof (cases "trans_list c")
  case Nil
  with assms show ?thesis by (simp add: cnetz_transmit_telegramm_spk_k_def)
next
  case (Cons tr rest)
  show ?thesis
  proof (cases "trans_state tr")
    case TRANS_VHQ
    with assms Cons show ?thesis
      unfolding cnetz_transmit_telegramm_spk_k_def Let_def
      by (auto split: if_splits option.splits sum.splits prod.splits
            dest!: env_spk_af_k [where c = c] intro!: sched_env_release)
  next
    case TRANS_DS
    with assms Cons show ?thesis
      unfolding cnetz_transmit_telegramm_spk_k_def Let_def
      by (auto split: if_splits intro!: sched_env_arm)
  next
    case TRANS_AHQ
    with assms Cons show ?thesis
      unfolding cnetz_transmit_telegramm_spk_k_def Let_def
      by (auto split: if_splits intro!: sched_env_arm)
  next
    case TRANS_AF
    with assms Cons show ?thesis
      unfolding cnetz_transmit_telegramm_spk_k_def Let_def
      by (auto split: sum.splits dest!: env_spk_af_k [where c = c])
  next
    case TRANS_AT
    with assms Cons show ?thesis
      unfolding cnetz_transmit_telegramm_spk_k_def Let_def
      by (auto split: sum.splits dest!: env_spk_af_k [where c = c])
  qed (use assms Cons in \<open>auto simp add: cnetz_transmit_telegramm_spk_k_def Let_def\<close>)
qed

lemma env_encode_with:
  "encode_with P enc c = Inr (t, c') \<Longrightarrow> sched_env c c'"
  by (cases enc)
     (auto simp add: env_rufblock env_meldeblock env_spk_v split: sum.splits dest: env_spk_k)

subsection \<open>The slot counters of a reachable channel\<close>

lemma and7_mod8: "(x :: int) AND 7 = x mod 8"
proof -
  have "x AND mask 3 = x mod 2 ^ 3"
    by (simp only: take_bit_eq_mask [symmetric] take_bit_eq_mod)
  then show ?thesis by (simp add: mask_eq_exp_minus_1)
qed

lemma and8_alternates:
  "x \<in> {0, 8, 16, 24 :: int} \<Longrightarrow> ((if x + 8 = 32 then 0 else x + 8) AND 8 = 0) \<longleftrightarrow> x AND 8 \<noteq> 0"
  by auto

lemma slots_mid_env:
  assumes "slots_mid c" "sched_env c c'"
  shows "slots_mid c'"
proof (cases "pending_v c'")
  case False
  with assms show ?thesis
    unfolding slots_mid_def slots_ok_def sched_env_def by auto
next
  case True
  with assms(2) consider
      (old) "sched_switch_mode c' = sched_switch_mode c" "pending_v c"
    | (new) "sched_ts c mod 8 = 7" "sched_r_m c \<noteq> 0" "sched_switch_mode c' = 1"
    unfolding sched_env_def and7_mod8 by auto
  then show ?thesis
  proof cases
    case old
    with assms True show ?thesis
      unfolding slots_mid_def slots_ok_def sched_env_def by auto
  next
    case new
    with assms True show ?thesis
      unfolding slots_mid_def slots_ok_def sched_env_def by auto
  qed
qed

lemma slots_ok_env:
  assumes "slots_ok c" "sched_env c c'"
  shows "slots_ok c'"
proof (cases "pending_v c'")
  case False
  with assms show ?thesis
    unfolding slots_ok_def sched_env_def by auto
next
  case True
  with assms(2) consider
      (old) "sched_switch_mode c' = sched_switch_mode c" "pending_v c"
    | (new) "sched_ts c mod 8 = 7" "sched_r_m c \<noteq> 0" "sched_switch_mode c' = 1"
    unfolding sched_env_def and7_mod8 by auto
  then show ?thesis
  proof cases
    case old
    with assms True show ?thesis
      unfolding slots_ok_def sched_env_def by auto
  next
    case new
    with assms True show ?thesis
      unfolding slots_ok_def sched_env_def by auto
  qed
qed

lemma slots_mid_switch: "slots_ok c \<Longrightarrow> slots_mid (sched_switch c)"
  unfolding slots_mid_def slots_ok_def sched_switch_def Let_def pending_v_def
  by (cases "sched_switch_mode c = 1"; cases "sched_dsp_mode c"; cases "dsp_mode c = DSP_MODE_SPK_V";
      simp; (auto split: if_splits)?)

lemma slots_ok_advance: "slots_mid c \<Longrightarrow> slots_ok (sched_advance c)"
  unfolding slots_mid_def slots_ok_def sched_advance_def Let_def pending_v_def
  by (cases "dsp_mode c = DSP_MODE_SPK_V"; cases "sched_r_m c = 0"; simp;
      (auto split: if_splits; presburger)?)

lemma dsp_mode_advance [simp]: "dsp_mode (sched_advance c) = dsp_mode c"
  by (simp add: sched_advance_def Let_def)

lemma block_start_parts:
  assumes "fsk_telegramm_start m enc c = Inr (b, c')"
    and "\<And>c1 t c2. enc c1 = Inr (t, c2) \<Longrightarrow> sched_env c1 c2"
  shows "\<exists>c2. sched_env (sched_switch c) c2 \<and> c' = sched_advance c2"
proof -
  have enc: "sched_env (sched_switch c) c2" if "enc c1 = Inr (t, c2)"
    and "sched_of c1 = sched_of (sched_switch c)" for c1 t c2
    using assms(2) [OF that(1)] sched_env_of_left [OF that(2)] by simp
  show ?thesis
  proof (cases "dsp_mode (sched_switch c)")
    case DSP_SCHED_NONE
    with assms(1) show ?thesis
      by (auto simp add: fsk_telegramm_start_def Let_def intro!: exI [of _ "sched_switch c"])
  next
    case DSP_MODE_OGK
    with assms(1) show ?thesis
      unfolding fsk_telegramm_start_def Let_def
      by (cases "push_bit (nat (sched_ts (sched_switch c))) 1 AND m \<noteq> 0")
         (auto split: if_splits sum.splits dest!: enc intro: exI [of _ "sched_switch c"])
  next
    case DSP_MODE_SPK_K
    with assms(1) show ?thesis
      unfolding fsk_telegramm_start_def Let_def
      by (auto split: if_splits sum.splits dest!: enc)
  next
    case DSP_MODE_SPK_V
    with assms(1) show ?thesis
      unfolding fsk_telegramm_start_def Let_def
      by (auto split: if_splits sum.splits dest!: enc)
  qed
qed

lemma block_start_slots:
  assumes "fsk_telegramm_start m (encode_with P e) c = Inr (b, c')" "slots_ok c"
  shows "slots_ok c'"
    and "dsp_mode c' = dsp_mode (sched_switch c)"
proof -
  from block_start_parts [OF assms(1)] env_encode_with
  obtain c2 where c2: "sched_env (sched_switch c) c2" "c' = sched_advance c2"
    by blast
  from slots_mid_switch [OF assms(2)] c2(1) have mid: "slots_mid c2"
    by (rule slots_mid_env)
  with c2 show "slots_ok c'" by (simp add: slots_ok_advance)
  from slots_mid_switch [OF assms(2)] have "dsp_mode (sched_switch c) \<noteq> DSP_SCHED_NONE"
    by (simp add: slots_mid_def slots_ok_def)
  with c2 show "dsp_mode c' = dsp_mode (sched_switch c)"
    by (simp add: sched_env_def)
qed

lemma slots_ok_create:
  assumes "snd (cnetz_create env pe de k au mp cs0 cs1 lb) = Inr c"
  shows "slots_ok c"
proof -
  let ?c0 = "cnetz_calloc\<lparr>kanal := k, loopback := lb, auth := au, ms_power := mp,
                pre_emphasis := pe, de_emphasis := de, dsp_mode := DSP_MODE_OGK,
                sched_dsp_mode := DSP_MODE_OGK, sched_switch_mode := 0\<rparr>"
  from assms have "c = cnetz_go_idle ?c0"
    unfolding cnetz_create_def Let_def
    by (auto split: if_splits option.splits prod.splits)
  moreover have "slots_ok ?c0"
    by (simp add: slots_ok_def cnetz_calloc_def pending_v_def)
  ultimately show ?thesis
    using slots_ok_env [OF _ sched_env_go_idle [OF sched_env_refl]] by simp
qed

lemma senders_env_refl [simp]: "senders_env ss ss"
  by (simp add: senders_env_def)

lemma senders_env_update:
  "(i < length ss \<Longrightarrow> sched_env (ss ! i) c) \<Longrightarrow> senders_env ss (ss[i := c])"
proof -
  assume a: "i < length ss \<Longrightarrow> sched_env (ss ! i) c"
  have "sched_env (ss ! j) (ss[i := c] ! j)" if "j < length ss" for j
    using that a by (cases "j = i") simp_all
  then show ?thesis by (simp add: senders_env_def)
qed

lemma find_callref_Some: "find_callref cr ss = Some i \<Longrightarrow> i < length ss"
  by (induction ss arbitrary: i) (auto split: if_splits option.splits)

lemma at_sender_env:
  assumes "at_sender i f ss = Inr ss'" "\<And>c c'. f c = Inr c' \<Longrightarrow> sched_env c c'"
  shows "senders_env ss ss'"
  using assms unfolding at_sender_def
  by (auto split: if_splits sum.splits intro!: senders_env_update)

lemma env_call_out_setup:
  assumes "call_out_setup new cr d ss = Inr (rc, ss')"
  shows "senders_env ss ss'"
  using assms unfolding call_out_setup_def Let_def
  by (auto split: if_splits option.splits sum.splits prod.splits
        intro!: senders_env_update
        dest!: sched_of_create sched_of_flush
        simp add: sched_env_of [where ?c2.0 = "ss ! i" for i])

lemma env_call_out_disconnect:
  assumes "call_out_disconnect cr cs ss = Inr (es, ss')"
  shows "senders_env ss ss'"
  using assms unfolding call_out_disconnect_def Let_def
  by (auto split: if_splits option.splits sum.splits list.splits dsp_mode.splits
        intro!: senders_env_update sched_env_release sched_env_go_idle
        simp add: sched_env_destroy)

lemma env_call_out_release:
  assumes "call_out_release cr cs ss = Inr ss'"
  shows "senders_env ss ss'"
  using assms unfolding call_out_release_def Let_def
  by (auto split: if_splits option.splits sum.splits list.splits
        intro!: senders_env_update sched_env_release sched_env_go_idle
        simp add: sched_env_destroy)

lemma sched_env_eq: "sched_of c' = sched_of c \<Longrightarrow> sched_env c c'"
  using sched_env_of [of c' c c] by simp

lemma step_env:
  assumes "step P act ss = Inr ss'" "\<And>i enc. act \<noteq> Block_Start i enc"
    "\<And>env pe de k au mp cs0 cs1 lb. act \<noteq> Create env pe de k au mp cs0 cs1 lb"
  shows "senders_env ss ss'"
proof (cases act)
  case (Receive_OgK i mf new tg bl)
  with assms(1) show ?thesis
    by (auto elim!: at_sender_env dest!: sched_of_receive_ogk intro: sched_env_eq)
next
  case (Receive_SpK_K i mf ml tg)
  with assms(1) show ?thesis
    by (auto elim!: at_sender_env intro!: sched_env_eq simp add: sched_of_receive_spk_k)
next
  case (Receive_SpK_V i mf ml tg)
  with assms(1) show ?thesis
    by (auto elim!: at_sender_env intro!: sched_env_eq simp add: sched_of_receive_spk_v)
next
  case (Timeout i a)
  with assms(1) show ?thesis
    by (auto elim!: at_sender_env intro!: env_timeout split: option.splits)
next
  case (Setup new cr d)
  with assms(1) show ?thesis
    by (auto split: sum.splits dest: env_call_out_setup)
next
  case (Disconnect cr cs)
  with assms(1) show ?thesis
    by (auto split: sum.splits dest: env_call_out_disconnect)
next
  case (Release cr cs)
  with assms(1) show ?thesis
    by (auto dest: env_call_out_release)
qed (use assms in auto)

lemma step_create:
  assumes "step P (Create env pe de k au mp cs0 cs1 lb) ss = Inr ss'"
  shows "ss' = ss \<or> (\<exists>c. ss' = ss @ [c] \<and> slots_ok c)"
  using assms by (auto split: sum.splits dest: slots_ok_create)

lemma step_block:
  assumes "step P (Block_Start i enc) ss = Inr ss'"
  shows "length ss' = length ss"
    and "j \<noteq> i \<Longrightarrow> ss' ! j = ss ! j"
    and "i < length ss \<Longrightarrow>
           \<exists>b. fsk_telegramm_start (ogk_timeslot_mask P) (encode_with P enc) (ss ! i) = Inr (b, ss' ! i)"
  using assms by (auto simp add: at_sender_def split: if_splits sum.splits)

lemma reachable_slots_ok:
  assumes "reachable P ss"
  shows "\<forall>j < length ss. slots_ok (ss ! j)"
  using assms
proof (induction rule: reachable.induct)
  case reach_start
  show ?case by simp
next
  case (reach_step ss act ss')
  show ?case
  proof (cases act)
    case (Create env pe de k au mp cs0 cs1 lb)
    with reach_step(2) step_create have "ss' = ss \<or> (\<exists>c. ss' = ss @ [c] \<and> slots_ok c)"
      by blast
    with reach_step(3) show ?thesis
      by (auto simp add: nth_append)
  next
    case (Block_Start i enc)
    note b = step_block [OF reach_step(2) [unfolded Block_Start]]
    show ?thesis
    proof (intro allI impI)
      fix j assume j: "j < length ss'"
      show "slots_ok (ss' ! j)"
      proof (cases "j = i")
        case True
        with j b(1) b(3) obtain bl where
          "fsk_telegramm_start (ogk_timeslot_mask P) (encode_with P enc) (ss ! i) = Inr (bl, ss' ! i)"
          by auto
        from block_start_slots(1) [OF this] reach_step(3) True j b(1) show ?thesis by simp
      next
        case False
        with b(2) [of j] reach_step(3) j b(1) show ?thesis by simp
      qed
    qed
  qed (use reach_step step_env [OF reach_step(2)] in
        \<open>auto simp add: senders_env_def intro: slots_ok_env\<close>)
qed

lemma reachable_run:
  "reachable P ss \<Longrightarrow> run P acts ss = Inr ss' \<Longrightarrow> reachable P ss'"
proof (induction acts arbitrary: ss)
  case Nil
  then show ?case by simp
next
  case (Cons act acts)
  from Cons.prems(2) obtain ss1 where s: "step P act ss = Inr ss1" and r: "run P acts ss1 = Inr ss'"
    by (auto split: sum.splits)
  from Cons.prems(1) s have "reachable P ss1" by (rule reach_step)
  then show ?case using r by (rule Cons.IH)
qed

lemma sched_switch_mode_switch:
  "dsp_mode (sched_switch c)
     = (if sched_r_m c = 0 \<and> sched_switch_mode c = 1 then sched_dsp_mode c else dsp_mode c)"
  "sched_switch_mode (sched_switch c)
     = (if sched_r_m c = 0 \<and> sched_switch_mode c \<noteq> 0 then sched_switch_mode c - 1
        else sched_switch_mode c)"
  "sched_dsp_mode (sched_switch c) = sched_dsp_mode c"
  "sched_ts (sched_switch c) = sched_ts c" "sched_r_m (sched_switch c) = sched_r_m c"
  "trans_list (sched_switch c) = trans_list c"
  by (auto simp add: sched_switch_def Let_def)

subsection \<open>The example call\<close>

lemma e_create:
  "step example_params (Create env_ok 0 0 131 1 1 0 0 False) [] = Inr [created]"
  by (simp add: cnetz_create_def env_ok_def dsp_init_sender_def Let_def cnetz_go_idle_def
        cnetz_calloc_def created_def ogk_idle_def CNETZ_OGK_KANAL_def)

lemma e_dial: "is_digit CHR ''0'' = True" "is_digit CHR ''2'' = True"
  by (simp_all add: is_digit_def)

lemma e_digits: "list_all (\<lambda>i. is_digit (''2222002'' ! i)) [0..<7] = True"
  by (simp add: list_all_index7 e_dial)

lemma e_setup:
  "step example_params (Setup (Some 12) 7 ''2222002'') [created]
     = Inr [created\<lparr>callref := 7, state := CNETZ_BUSY,
                     trans_list := [paged\<lparr>trans_state := TRANS_VAK, timer_running := False\<rparr>]\<rparr>]"
  by (simp add: call_out_setup_def c_str_def e_digits e_dial atoi_def isspace_def Let_def
        created_def ogk_idle_def cnetz_calloc_def create_transaction_def new_transaction_def
        trans_new_state_def cnetz_flush_other_transactions_def has_next_def flush_before.simps
        paged_def)

lemmas step_defs = at_sender_def fsk_telegramm_start_def sched_switch_def sched_advance_def
  example_params_def Let_def update_trans_def emit_def timer_start_def timer_stop_def
  trans_new_state_def search_transaction_def futln_of_def tx_zero_def

lemma e_run_assigned: "run example_params to_ogk_assigned [] = Inr [ogk_assigned]"
proof -
  have "step example_params (Block_Start 0 Enc_Rufblock)
          [created\<lparr>callref := 7, state := CNETZ_BUSY,
                     trans_list := [paged\<lparr>trans_state := TRANS_VAK, timer_running := False\<rparr>]\<rparr>]
        = Inr [ogk_assigned]"
    by (simp add: step_defs cnetz_transmit_telegramm_rufblock_def rufblock_assign_def
          created_def ogk_idle_def cnetz_calloc_def paged_def ogk_assigned_def)
  then show ?thesis
    by (simp only: to_ogk_assigned_def run.simps e_create e_setup sum.case)
qed

lemma e_run_switching: "run example_params to_ogk_switching [ogk_assigned] = Inr [ogk_switching]"
  by (simp add: to_ogk_switching_def step_defs cnetz_transmit_telegramm_rufblock_def
        cnetz_transmit_telegramm_meldeblock_def ogk_assigned_def ogk_switching_def paged_def)

lemma e_release:
  "step example_params (Release 7 CAUSE_NORMAL) [ogk_assigned] = Inr [ogk_cancelled]"
  by (simp add: call_out_release_def ogk_assigned_def ogk_cancelled_def paged_def Let_def
        destroy_transaction_def cnetz_go_idle_def emit_def)

lemma e_first:
  "step example_params (Block_Start 0 (Enc_SpK_K None 0)) [ogk_switching] = Inr [spk_k_first]"
  by (simp add: step_defs cnetz_transmit_telegramm_spk_k_def ogk_switching_def ogk_assigned_def
        paged_def spk_k_first_def)

lemma replicate_11: "replicate 11 x = [x, x, x, x, x, x, x, x, x, x, x]"
  by (simp add: numeral_eq_Suc)

lemma e_run_spk_k:
  "run example_params to_spk_k_switching [ogk_switching] = Inr [spk_k_switching]"
  by (simp add: to_spk_k_switching_def step_defs cnetz_transmit_telegramm_spk_k_def ogk_switching_def ogk_assigned_def
        paged_def spk_k_switching_def replicate_11 cnetz_receive_telegramm_spk_k_def answer_def
        spk_finish_def sync_frame_zero)

lemma run_append:
  "run P (as @ bs) ss = (case run P as ss of Inl x \<Rightarrow> Inl x | Inr ss' \<Rightarrow> run P bs ss')"
  by (induction as arbitrary: ss) (auto split: sum.splits)

lemma e_reach_assigned: "reachable example_params [ogk_assigned]"
  using reach_start e_run_assigned by (rule reachable_run)

lemma e_reach_switching: "reachable example_params [ogk_switching]"
  using e_reach_assigned e_run_switching by (rule reachable_run)

lemma e_reach_spk_k: "reachable example_params [spk_k_switching]"
  using e_reach_switching e_run_spk_k by (rule reachable_run)

lemmas spk_v_defs = fsk_telegramm_start_def sched_switch_def sched_advance_def
  example_params_def Let_def cnetz_transmit_telegramm_spk_v_def futln_of_def tx_zero_def
  spk_k_switching_def spk_v_second_def spk_v_third_def ogk_assigned_def paged_def vhq_telegramm_def

lemma e_block_v1:
  "fsk_telegramm_start (ogk_timeslot_mask example_params) (encode_with example_params Enc_SpK_V)
     spk_k_switching = Inr (Block_Distributed (vhq_telegramm OPCODE_VHQ2_V), spk_v_second)"
  by (simp add: spk_v_defs)

lemma e_block_v2:
  "fsk_telegramm_start (ogk_timeslot_mask example_params) (encode_with example_params Enc_SpK_V)
     spk_v_second = Inr (Block_Distributed (vhq_telegramm OPCODE_VHQ1_V), spk_v_third)"
  by (simp add: spk_v_defs)

lemma e_reach_spk_v: "reachable example_params [spk_v_second]"
proof -
  have "step example_params (Block_Start 0 Enc_SpK_V) [spk_k_switching] = Inr [spk_v_second]"
    by (simp add: at_sender_def e_block_v1)
  with e_reach_spk_k show ?thesis by (rule reach_step)
qed

lemma e_modes:
  "dsp_mode (sched_switch spk_k_switching) = DSP_MODE_SPK_V"
  "dsp_mode (sched_switch spk_v_second) = DSP_MODE_SPK_V"
  "sched_ts spk_k_switching = 8" "sched_ts spk_v_second = 16" "sched_ts spk_v_third = 24"
  by (simp_all add: spk_v_defs)

subsection \<open>The countdown of a mode switch\<close>

text \<open>
  C4, as far as it holds.  On a channel of a reachable base station the mode \<open>dsp_mode\<close>
  changes only when a block of that channel starts in sub-phase R (\<open>sched_r_m = 0\<close>) with
  the countdown at 1, and it becomes \<open>sched_dsp_mode\<close> then; every other action, a block
  that starts in sub-phase M and a block that starts with another countdown leave it.
  The countdown of the block start (\<open>sched_switch\<close>) takes one off a positive countdown in
  sub-phase R and leaves it otherwise, and sets the mode to \<open>sched_dsp_mode\<close> exactly when
  the countdown reaches zero.  The countdown is 0, 1 or 2.
\<close>

theorem dsp_mode_switches_at_countdown:
  assumes "reachable P senders" and "i < length senders"
    and "step P act senders = Inr senders'"
  shows "dsp_mode (senders' ! i)
           = (if block_of act = Some i \<and> sched_r_m (senders ! i) = 0
                  \<and> sched_switch_mode (senders ! i) = 1
              then sched_dsp_mode (senders ! i) else dsp_mode (senders ! i))
       \<and> sched_switch_mode (sched_switch (senders ! i))
           = (if sched_r_m (senders ! i) = 0 \<and> sched_switch_mode (senders ! i) > 0
              then sched_switch_mode (senders ! i) - 1 else sched_switch_mode (senders ! i))
       \<and> dsp_mode (sched_switch (senders ! i))
           = (if sched_r_m (senders ! i) = 0 \<and> sched_switch_mode (senders ! i) = 1
              then sched_dsp_mode (senders ! i) else dsp_mode (senders ! i))
       \<and> sched_switch_mode (senders ! i) \<in> {0, 1, 2}"
proof -
  let ?c = "senders ! i"
  from reachable_slots_ok [OF assms(1)] assms(2) have ok: "slots_ok ?c" by simp
  then have range: "0 \<le> sched_switch_mode ?c" "sched_switch_mode ?c \<le> 2"
    and set: "dsp_mode ?c \<noteq> DSP_SCHED_NONE"
    by (simp_all add: slots_ok_def)
  have mode: "dsp_mode (senders' ! i)
           = (if block_of act = Some i \<and> sched_r_m ?c = 0 \<and> sched_switch_mode ?c = 1
              then sched_dsp_mode ?c else dsp_mode ?c)"
  proof (cases act)
    case (Create env pe de k au mp cs0 cs1 lb)
    with assms(3) step_create have "senders' = senders \<or> (\<exists>c. senders' = senders @ [c])"
      by blast
    with assms(2) Create show ?thesis by (auto simp add: nth_append)
  next
    case (Block_Start j enc)
    note b = step_block [OF assms(3) [unfolded Block_Start]]
    show ?thesis
    proof (cases "j = i")
      case True
      with b(3) assms(2) obtain bl where
        "fsk_telegramm_start (ogk_timeslot_mask P) (encode_with P enc) ?c = Inr (bl, senders' ! i)"
        by auto
      from block_start_slots(2) [OF this ok] Block_Start True show ?thesis
        by (simp add: sched_switch_mode_switch)
    next
      case False
      with b(2) [of i] Block_Start show ?thesis by auto
    qed
  qed (use step_env [OF assms(3)] assms(2) set in \<open>auto simp add: senders_env_def sched_env_def\<close>)
  from range have "sched_switch_mode ?c \<in> {0, 1, 2}" by auto
  with mode range show ?thesis
    by (simp add: sched_switch_mode_switch) 
qed

theorem dsp_mode_switches_at_countdown_witness:
  "reachable example_params [ogk_switching]
   \<and> step example_params (Block_Start 0 (Enc_SpK_K None 0)) [ogk_switching] = Inr [spk_k_first]
   \<and> sched_r_m ogk_switching = 0 \<and> sched_switch_mode ogk_switching = 1
   \<and> dsp_mode ogk_switching = DSP_MODE_OGK \<and> sched_dsp_mode ogk_switching = DSP_MODE_SPK_K
   \<and> dsp_mode spk_k_first = DSP_MODE_SPK_K
   \<and> sched_switch_mode (sched_switch ogk_switching) = 0"
proof -
  have f: "sched_r_m ogk_switching = 0" "sched_switch_mode ogk_switching = 1"
    "dsp_mode ogk_switching = DSP_MODE_OGK" "sched_dsp_mode ogk_switching = DSP_MODE_SPK_K"
    by (simp_all add: ogk_switching_def ogk_assigned_def)
  from dsp_mode_switches_at_countdown [OF e_reach_switching _ e_first, of 0]
  have "dsp_mode spk_k_first = DSP_MODE_SPK_K"
     "sched_switch_mode (sched_switch ogk_switching) = 0"
    by (simp_all add: f)
  with e_reach_switching e_first f show ?thesis by simp
qed

text \<open>
  C4, the part that does not hold: the mode and the scheduled mode may differ while the
  countdown is zero.  The base station pages a subscriber on the organisation channel
  (\<open>VAK_R\<close>), which schedules the switch to the speech channel two blocks ahead, and call
  control releases the call before the switch: \<open>call_out_release\<close> destroys the
  transaction and calls \<open>cnetz_go_idle\<close>, which zeroes the countdown and leaves
  \<open>sched_dsp_mode\<close> as it is.
\<close>

theorem scheduled_mode_differs_at_countdown_zero:
  "run example_params (to_ogk_assigned @ [Release 7 CAUSE_NORMAL]) [] = Inr [ogk_cancelled]
   \<and> reachable example_params [ogk_cancelled]
   \<and> dsp_mode ogk_cancelled = DSP_MODE_OGK \<and> sched_dsp_mode ogk_cancelled = DSP_MODE_SPK_K
   \<and> sched_switch_mode ogk_cancelled = 0"
proof -
  have "run example_params (to_ogk_assigned @ [Release 7 CAUSE_NORMAL]) [] = Inr [ogk_cancelled]"
    by (simp only: run_append e_run_assigned sum.case run.simps e_release)
  moreover from reach_start this have "reachable example_params [ogk_cancelled]"
    by (rule reachable_run)
  ultimately show ?thesis
    by (simp add: ogk_cancelled_def ogk_assigned_def)
qed

subsection \<open>The slot counter in distributed signalling\<close>

text \<open>
  C5.  On a channel of a reachable base station, a block that is sent in distributed
  signalling (the mode after the countdown is \<open>DSP_MODE_SPK_V\<close>) starts with the slot
  counter at 0, 8, 16 or 24 and leaves it 8 higher, 0 after 24; the counter stays within
  0..31 and the channel in distributed signalling; the test \<open>sched_ts AND 8\<close> gives the
  other answer at the next block; and when \<open>cnetz_transmit_telegramm_spk_v\<close> builds the
  telegram for a transaction in state VHQ, its opcode is \<open>VHQ1_V\<close> when the test gives 0
  and \<open>VHQ2_V\<close> otherwise, so the two opcodes alternate from block to block.
\<close>

theorem spk_v_timeslot_stepping:
  assumes "reachable P senders" and "c \<in> set senders"
    and "fsk_telegramm_start (ogk_timeslot_mask P) (encode_with P enc) c = Inr (b, c')"
    and "dsp_mode (sched_switch c) = DSP_MODE_SPK_V"
  shows "sched_ts c \<in> {0, 8, 16, 24}
       \<and> sched_ts c' = (if sched_ts c + 8 = 32 then 0 else sched_ts c + 8)
       \<and> 0 \<le> sched_ts c' \<and> sched_ts c' < 32
       \<and> dsp_mode c' = DSP_MODE_SPK_V
       \<and> (sched_ts c' AND 8 = 0 \<longleftrightarrow> sched_ts c AND 8 \<noteq> 0)
       \<and> (enc = Enc_SpK_V \<and> trans_list c \<noteq> [] \<and> trans_state (hd (trans_list c)) = TRANS_VHQ
            \<longrightarrow> (\<exists>t. b = Block_Distributed t
                   \<and> tx_opcode t = Some (if sched_ts c AND 8 = 0 then OPCODE_VHQ1_V
                                         else OPCODE_VHQ2_V)))"
proof -
  from assms(2) obtain j where "j < length senders" "senders ! j = c"
    by (auto simp add: in_set_conv_nth)
  with reachable_slots_ok [OF assms(1)] have ok: "slots_ok c" by auto
  let ?s = "sched_switch c"
  from slots_mid_switch [OF ok] assms(4)
  have s: "0 \<le> sched_ts ?s" "sched_ts ?s < 32" "sched_ts ?s mod 8 = 0"
    by (simp_all add: slots_mid_def slots_ok_def)
  then have ts: "sched_ts c \<in> {0, 8, 16, 24}"
    unfolding sched_switch_mode_switch by (simp, presburger)
  from block_start_parts [OF assms(3)] env_encode_with
  obtain c2 where c2: "sched_env ?s c2" "c' = sched_advance c2"
    by blast
  from c2(1) assms(4) have "dsp_mode c2 = DSP_MODE_SPK_V" "sched_ts c2 = sched_ts c"
    by (simp_all add: sched_env_def sched_switch_mode_switch)
  with c2(2) have adv: "sched_ts c' = (if sched_ts c + 8 = 32 then 0 else sched_ts c + 8)"
      "dsp_mode c' = DSP_MODE_SPK_V"
    by (simp_all add: sched_advance_def Let_def)
  from ts adv(1) have bounds: "0 \<le> sched_ts c'" "sched_ts c' < 32" by auto
  from ts have alt: "((if sched_ts c + 8 = 32 then 0 else sched_ts c + 8) AND 8 = 0)
                       \<longleftrightarrow> sched_ts c AND 8 \<noteq> 0"
    by (rule and8_alternates)
  have opc: "\<exists>t. b = Block_Distributed t
          \<and> tx_opcode t = Some (if sched_ts c AND 8 = 0 then OPCODE_VHQ1_V else OPCODE_VHQ2_V)"
    if "enc = Enc_SpK_V" "trans_list c \<noteq> []" "trans_state (hd (trans_list c)) = TRANS_VHQ"
  proof -
    from that(2) obtain tr rest where l: "trans_list ?s = tr # rest"
      by (cases "trans_list c") (simp_all add: sched_switch_mode_switch)
    with that(3) have v: "trans_state tr = TRANS_VHQ"
      by (simp add: sched_switch_mode_switch)
    from assms(3) assms(4) that(1) l v show ?thesis
      unfolding fsk_telegramm_start_def Let_def
      by (auto simp add: cnetz_transmit_telegramm_spk_v_def Let_def sched_switch_mode_switch
            split: if_splits)
  qed
  from ts adv bounds alt opc show ?thesis by simp
qed

theorem spk_v_timeslot_stepping_witness:
  "reachable example_params [spk_k_switching]
   \<and> dsp_mode (sched_switch spk_k_switching) = DSP_MODE_SPK_V
   \<and> fsk_telegramm_start (ogk_timeslot_mask example_params) (encode_with example_params Enc_SpK_V)
        spk_k_switching = Inr (Block_Distributed (vhq_telegramm OPCODE_VHQ2_V), spk_v_second)
   \<and> sched_ts spk_k_switching = 8 \<and> sched_ts spk_v_second = 16
   \<and> reachable example_params [spk_v_second]
   \<and> dsp_mode (sched_switch spk_v_second) = DSP_MODE_SPK_V
   \<and> fsk_telegramm_start (ogk_timeslot_mask example_params) (encode_with example_params Enc_SpK_V)
        spk_v_second = Inr (Block_Distributed (vhq_telegramm OPCODE_VHQ1_V), spk_v_third)
   \<and> sched_ts spk_v_third = 24"
proof -
  have "sched_ts spk_v_second = (if sched_ts spk_k_switching + 8 = 32 then 0
                                  else sched_ts spk_k_switching + 8)"
    using spk_v_timeslot_stepping [OF e_reach_spk_k _ e_block_v1 e_modes(1)] by simp
  moreover have "sched_ts spk_v_third = (if sched_ts spk_v_second + 8 = 32 then 0
                                  else sched_ts spk_v_second + 8)"
    using spk_v_timeslot_stepping [OF e_reach_spk_v _ e_block_v2 e_modes(2)] by simp
  ultimately show ?thesis
    using e_reach_spk_k e_reach_spk_v e_block_v1 e_block_v2 e_modes by simp
qed


end
